theory Spec2Isabelle
  imports Main "HOL-Library.Word"
begin

section \<open>Data model of package systemd\<close>

type_synonym byte = "8 word"

text \<open>
  The status of one unit as the D-Bus binding reports it (\<^verbatim>\<open>dbus.UnitStatus\<close>, a struct of
  strings and one 32-bit job id). \<^verbatim>\<open>dbus.ObjectPath\<close> is a string type. Go compares the
  struct with \<^verbatim>\<open>==\<close> field by field, which is equality of the record.
\<close>

record UnitStatus =
  Name :: string
  Description :: string
  LoadState :: string
  ActiveState :: string
  SubState :: string
  Followed :: string
  Path :: string
  JobId :: "32 word"
  JobType :: string
  JobPath :: string

text \<open>\<^verbatim>\<open>type Unit struct { dbus.UnitStatus }\<close>\<close>

datatype Unit = Unit (UnitStatus: UnitStatus)

text \<open>\<^verbatim>\<open>func (u *Unit) isEqual(u2 dbus.UnitStatus) bool { return u.UnitStatus == u2 }\<close>\<close>

definition isEqual :: "Unit \<Rightarrow> UnitStatus \<Rightarrow> bool" where
  "isEqual u u2 = (UnitStatus u = u2)"

text \<open>
  Errors are values. \<open>ErrNotExist\<close> is the one error that \<^verbatim>\<open>os.IsNotExist\<close> recognises;
  the others carry the message of the operating system, of the gzip or gob decoder, or
  of the D-Bus connection.
\<close>

datatype error = ErrNotExist | ErrIO string | ErrDecode string | ErrConn string

definition IsNotExist :: "error \<Rightarrow> bool" where
  "IsNotExist err = (err = ErrNotExist)"

section \<open>The file system\<close>

text \<open>
  The regular files the program can see, by path, and the failures the operating system
  may answer with: \<open>fault fs p call\<close> is the error of system call \<open>call\<close> on path \<open>p\<close>, if it
  fails. A write that fails leaves the first \<open>torn fs\<close> bytes of the data on disk.
\<close>

datatype syscall = SysLstat | SysOpenRead | SysOpenWrite | SysWrite | SysClose

record filesystem =
  files :: "string \<rightharpoonup> byte list"
  fault :: "string \<Rightarrow> syscall \<Rightarrow> error option"
  torn :: nat

text \<open>\<^verbatim>\<open>os.Lstat(path)\<close>, of which the program reads only \<^verbatim>\<open>Size()\<close>.\<close>

definition Lstat :: "filesystem \<Rightarrow> string \<Rightarrow> error + nat" where
  "Lstat fs p =
     (case fault fs p SysLstat of
        Some err \<Rightarrow> Inl err
      | None \<Rightarrow> (case files fs p of None \<Rightarrow> Inl ErrNotExist | Some bs \<Rightarrow> Inr (length bs)))"

text \<open>\<^verbatim>\<open>os.OpenFile(path, os.O_RDONLY, 0644)\<close>: the bytes the handle will read.\<close>

definition OpenFile_RDONLY :: "filesystem \<Rightarrow> string \<Rightarrow> error + byte list" where
  "OpenFile_RDONLY fs p =
     (case fault fs p SysOpenRead of
        Some err \<Rightarrow> Inl err
      | None \<Rightarrow> (case files fs p of None \<Rightarrow> Inl ErrNotExist | Some bs \<Rightarrow> Inr bs))"

text \<open>
  \<^verbatim>\<open>os.OpenFile(path, os.O_CREATE|os.O_WRONLY, 0644)\<close>: a missing file is created empty, an
  existing file keeps its content (the flags hold no \<^verbatim>\<open>O_TRUNC\<close>), and the handle is
  positioned at offset 0.
\<close>

definition OpenFile_CREATE_WRONLY :: "filesystem \<Rightarrow> string \<Rightarrow> error + filesystem" where
  "OpenFile_CREATE_WRONLY fs p =
     (case fault fs p SysOpenWrite of
        Some err \<Rightarrow> Inl err
      | None \<Rightarrow> (case files fs p of
                  None \<Rightarrow> Inr (fs\<lparr>files := (files fs)(p \<mapsto> [])\<rparr>)
                | Some bs \<Rightarrow> Inr fs))"

text \<open>Writing \<open>new\<close> from offset 0 over a file that holds \<open>old\<close>.\<close>

definition overwrite :: "byte list \<Rightarrow> byte list \<Rightarrow> byte list" where
  "overwrite new old = new @ drop (length new) old"

definition write_file :: "filesystem \<Rightarrow> string \<Rightarrow> byte list \<Rightarrow> filesystem" where
  "write_file fs p new =
     fs\<lparr>files := (files fs)(p \<mapsto> overwrite new (case files fs p of None \<Rightarrow> [] | Some old \<Rightarrow> old))\<rparr>"

section \<open>The codec\<close>

text \<open>
  \<^verbatim>\<open>compress/gzip\<close> and \<^verbatim>\<open>encoding/gob\<close> belong to the Go library, so they are parameters:
  \<open>Encode\<close> is the whole output of \<^verbatim>\<open>gob.NewEncoder(gzip.NewWriter(f)).Encode(state)\<close>
  once the gzip writer is closed, \<open>NewReader\<close> is \<^verbatim>\<open>gzip.NewReader(f)\<close> on the bytes of
  the file and \<open>Decode\<close> is \<^verbatim>\<open>gob.NewDecoder(r).Decode\<close> on that reader. The bytes that gob
  writes for a map depend on the order in which it ranges over it; \<open>Encode\<close> is any one
  such choice.
\<close>

record codec =
  Encode :: "(string \<rightharpoonup> Unit) \<Rightarrow> byte list"
  NewReader :: "byte list \<Rightarrow> error + byte list"
  Decode :: "byte list \<Rightarrow> error + (string \<rightharpoonup> Unit)"

section \<open>The watcher\<close>

text \<open>
  \<^verbatim>\<open>type Systemd struct\<close>. The logger is \<open>None\<close> when it is nil, otherwise it holds the
  messages printed so far (the formatted messages, without the prefix and the time stamp
  that \<^verbatim>\<open>log.Logger\<close> puts before each). The connection is outside the record: its answers
  are the script of polls that \<open>Next\<close> consumes.
\<close>

record Systemd =
  state :: "string \<rightharpoonup> Unit"
  statePath :: string
  logger :: "string list option"
  interval :: int
  bootstrap :: bool

definition DefaultStateFile :: string where
  "DefaultStateFile = ''systemd.state''"

text \<open>500 milliseconds, in nanoseconds as \<^verbatim>\<open>time.Duration\<close> counts.\<close>

definition DefaultInterval :: int where
  "DefaultInterval = 500 * 1000000"

type_synonym Option = "Systemd \<Rightarrow> Systemd"

definition WithStateFile :: "string \<Rightarrow> Option" where
  "WithStateFile path = (\<lambda>sd. sd\<lparr>statePath := path\<rparr>)"

definition WithLogger :: "string list option \<Rightarrow> Option" where
  "WithLogger l = (\<lambda>sd. sd\<lparr>logger := l\<rparr>)"

definition WithInterval :: "int \<Rightarrow> Option" where
  "WithInterval d = (\<lambda>sd. sd\<lparr>interval := d\<rparr>)"

text \<open>\<^verbatim>\<open>logf\<close>: prints the message when the logger is not nil.\<close>

definition logf :: "Systemd \<Rightarrow> string \<Rightarrow> Systemd" where
  "logf sd msg =
     (case logger sd of None \<Rightarrow> sd | Some out \<Rightarrow> sd\<lparr>logger := Some (out @ [msg])\<rparr>)"

definition bootstrap_msg :: string where
  "bootstrap_msg = ''state file doesn'' @ [CHR 0x27] @ ''t exist, enable bootstrap mode''"

text \<open>
  \<^verbatim>\<open>load\<close>. \<^verbatim>\<open>gob\<close> decodes into the map that \<^verbatim>\<open>sd.state\<close> already holds, adding the
  decoded entries to it.
\<close>

definition load :: "codec \<Rightarrow> filesystem \<Rightarrow> Systemd \<Rightarrow> error + Systemd" where
  "load c fs sd =
     (case Lstat fs (statePath sd) of
        Inl err \<Rightarrow>
          if IsNotExist err then Inr (logf (sd\<lparr>bootstrap := True\<rparr>) bootstrap_msg)
          else Inl err
      | Inr sz \<Rightarrow>
          if sz = 0 then Inr sd
          else (case OpenFile_RDONLY fs (statePath sd) of
                  Inl err \<Rightarrow> Inl err
                | Inr f \<Rightarrow>
                    (case NewReader c f of
                       Inl err \<Rightarrow> Inl err
                     | Inr r \<Rightarrow>
                         (case Decode c r of
                            Inl err \<Rightarrow> Inl err
                          | Inr m \<Rightarrow> Inr (sd\<lparr>state := state sd ++ m\<rparr>)))))"

text \<open>
  \<^verbatim>\<open>store\<close>. Only the errors of \<^verbatim>\<open>OpenFile\<close> and \<^verbatim>\<open>Encode\<close> are returned; the two
  \<^verbatim>\<open>Close\<close> calls are deferred and their results dropped.
\<close>

definition store :: "codec \<Rightarrow> filesystem \<Rightarrow> Systemd \<Rightarrow> error option \<times> filesystem" where
  "store c fs sd =
     (case OpenFile_CREATE_WRONLY fs (statePath sd) of
        Inl err \<Rightarrow> (Some err, fs)
      | Inr fs1 \<Rightarrow>
          (case fault fs1 (statePath sd) SysWrite of
             Some err \<Rightarrow>
               (Some err, write_file fs1 (statePath sd) (take (torn fs1) (Encode c (state sd))))
           | None \<Rightarrow>
               (case fault fs1 (statePath sd) SysClose of
                  Some err \<Rightarrow>
                    (None, write_file fs1 (statePath sd) (take (torn fs1) (Encode c (state sd))))
                | None \<Rightarrow> (None, write_file fs1 (statePath sd) (Encode c (state sd))))))"

text \<open>
  \<^verbatim>\<open>New\<close>: \<open>dial\<close> is the error of \<^verbatim>\<open>dbus.New()\<close>, if it fails. The default logger prints to
  standard output and has printed nothing yet.
\<close>

definition New :: "codec \<Rightarrow> filesystem \<Rightarrow> error option \<Rightarrow> Option list \<Rightarrow> error + Systemd" where
  "New c fs dial opts =
     (case dial of
        Some err \<Rightarrow> Inl err
      | None \<Rightarrow>
          load c fs
            (fold (\<lambda>opt sd. opt sd) opts
               \<lparr>state = Map.empty, statePath = DefaultStateFile, logger = Some [],
                interval = DefaultInterval, bootstrap = False\<rparr>))"

subsection \<open>One poll cycle\<close>

definition status_msg :: "UnitStatus \<Rightarrow> string" where
  "status_msg s =
     Name s @ '' active='' @ ActiveState s @ '' load='' @ LoadState s @ '' sub='' @ SubState s"

definition deleted_msg :: "Unit \<Rightarrow> string" where
  "deleted_msg u = Name (UnitStatus u) @ '' deleted''"

text \<open>
  The first \<^verbatim>\<open>range\<close> loop of \<^verbatim>\<open>Next\<close>, over the listing. The pair carries the watcher and
  the local \<^verbatim>\<open>flush\<close>.
\<close>

fun update_units :: "bool \<Rightarrow> UnitStatus list \<Rightarrow> Systemd \<times> bool \<Rightarrow> Systemd \<times> bool" where
  "update_units first [] (sd, flush) = (sd, flush)"
| "update_units first (s # ss) (sd, flush) =
     (if (case state sd (Path s) of None \<Rightarrow> False | Some unit \<Rightarrow> isEqual unit s)
      then update_units first ss (sd, flush)
      else if bootstrap sd \<and> first
      then update_units first ss (sd\<lparr>state := (state sd)(Path s \<mapsto> Unit s)\<rparr>, True)
      else update_units first ss
             (logf (sd\<lparr>state := (state sd)(Path s \<mapsto> Unit s)\<rparr>) (status_msg s), True))"

text \<open>
  The second \<^verbatim>\<open>range\<close> loop, over the map. Go leaves the order in which a map is
  ranged over open, so the order \<open>ks\<close> of the visit is a parameter; a key that the map
  does not hold is not visited.
\<close>

fun remove_units :: "UnitStatus list \<Rightarrow> string list \<Rightarrow> Systemd \<times> bool \<Rightarrow> Systemd \<times> bool" where
  "remove_units units [] (sd, flush) = (sd, flush)"
| "remove_units units (path # ks) (sd, flush) =
     (case state sd path of
        None \<Rightarrow> remove_units units ks (sd, flush)
      | Some u \<Rightarrow>
          if path \<in> set (map Path units) then remove_units units ks (sd, flush)
          else remove_units units ks
                 (logf (sd\<lparr>state := (state sd)(path := None)\<rparr>) (deleted_msg u), True))"

definition cycle :: "bool \<Rightarrow> UnitStatus list \<Rightarrow> string list \<Rightarrow> Systemd \<Rightarrow> Systemd \<times> bool" where
  "cycle first units ks sd = remove_units units ks (update_units first units (sd, False))"

subsection \<open>Next\<close>

text \<open>
  One answer of the connection and of the Go runtime to one pass of the loop: what
  \<^verbatim>\<open>ListUnits\<close> returns, and the order in which the map is ranged over.
\<close>

record poll =
  listing :: "error + UnitStatus list"
  order :: "string list"

text \<open>
  \<^verbatim>\<open>Next\<close> loops until an error. The script of polls is finite: the result is \<open>None\<close> when
  the call has consumed the script without returning, and \<open>Some (changes, err)\<close> when it
  has returned. The last component is what is left of the script. \<^verbatim>\<open>time.Sleep\<close> changes
  nothing that is modelled.
\<close>

fun Next_loop ::
  "codec \<Rightarrow> bool \<Rightarrow> poll list \<Rightarrow> Systemd \<Rightarrow> filesystem \<Rightarrow>
     (Unit list \<times> error) option \<times> Systemd \<times> filesystem \<times> poll list" where
  "Next_loop c first [] sd fs = (None, sd, fs, [])"
| "Next_loop c first (p # ps) sd fs =
     (case listing p of
        Inl err \<Rightarrow> (Some ([], err), sd, fs, ps)
      | Inr units \<Rightarrow>
          (case cycle first units (order p) sd of
             (sd', flush) \<Rightarrow>
               if flush
               then (case store c fs sd' of
                       (Some err, fs') \<Rightarrow> (Some ([], err), sd', fs', ps)
                     | (None, fs') \<Rightarrow> Next_loop c False ps sd' fs')
               else Next_loop c False ps sd' fs))"

definition Next ::
  "codec \<Rightarrow> poll list \<Rightarrow> Systemd \<Rightarrow> filesystem \<Rightarrow>
     (Unit list \<times> error) option \<times> Systemd \<times> filesystem \<times> poll list" where
  "Next c polls sd fs = Next_loop c True polls sd fs"

section \<open>Auxiliary definitions\<close>

text \<open>
  What the first loop does with a unit once the map holds its new record: nothing on the
  first pass of a bootstrap run, a log line otherwise.
\<close>

definition report :: "bool \<Rightarrow> UnitStatus \<Rightarrow> Systemd \<Rightarrow> Systemd" where
  "report first s sd = (if bootstrap sd \<and> first then sd else logf sd (status_msg s))"

subsection \<open>Example data\<close>

definition nginx :: UnitStatus where
  "nginx = \<lparr>Name = ''nginx.service'', Description = ''A high performance web server'',
     LoadState = ''loaded'', ActiveState = ''active'', SubState = ''running'', Followed = [],
     Path = ''/org/freedesktop/systemd1/unit/nginx_2eservice'', JobId = 0, JobType = [],
     JobPath = ''/''\<rparr>"

definition nginx_failed :: UnitStatus where
  "nginx_failed = nginx\<lparr>ActiveState := ''failed'', SubState := ''failed''\<rparr>"

definition cron :: UnitStatus where
  "cron = \<lparr>Name = ''cron.service'', Description = ''Regular background program processing daemon'',
     LoadState = ''loaded'', ActiveState = ''active'', SubState = ''running'', Followed = [],
     Path = ''/org/freedesktop/systemd1/unit/cron_2eservice'', JobId = 0, JobType = [],
     JobPath = ''/''\<rparr>"

text \<open>A watcher that is not in bootstrap mode, with the default settings and an empty log.\<close>

definition watcher :: "(string \<rightharpoonup> Unit) \<Rightarrow> Systemd" where
  "watcher m = \<lparr>state = m, statePath = DefaultStateFile, logger = Some [],
     interval = DefaultInterval, bootstrap = False\<rparr>"

text \<open>A file system on which no call fails.\<close>

definition disk :: "(string \<rightharpoonup> byte list) \<Rightarrow> filesystem" where
  "disk fl = \<lparr>files = fl, fault = (\<lambda>p call. None), torn = 0\<rparr>"

text \<open>A file system that refuses to open any file for writing.\<close>

definition readonly_disk :: "(string \<rightharpoonup> byte list) \<Rightarrow> filesystem" where
  "readonly_disk fl =
     \<lparr>files = fl,
      fault = (\<lambda>p call. if call = SysOpenWrite then Some (ErrIO ''permission denied'') else None),
      torn = 0\<rparr>"

text \<open>
  A file system on which the deferred \<^verbatim>\<open>Close\<close> of a written file fails, one byte having
  reached the file.
\<close>

definition full_disk :: "(string \<rightharpoonup> byte list) \<Rightarrow> filesystem" where
  "full_disk fl =
     \<lparr>files = fl,
      fault = (\<lambda>p call. if call = SysClose then Some (ErrIO ''no space left on device'') else None),
      torn = 1\<rparr>"

text \<open>
  A stand-in codec that knows one snapshot: it writes the two magic bytes of gzip, checks
  them when reading, and decodes to \<open>m\<close> whatever follows them.
\<close>

definition fixed_codec :: "(string \<rightharpoonup> Unit) \<Rightarrow> codec" where
  "fixed_codec m =
     \<lparr>Encode = (\<lambda>_. [0x1f, 0x8b]),
      NewReader = (\<lambda>bs. if take 2 bs = [0x1f, 0x8b] then Inr (drop 2 bs)
                         else Inl (ErrDecode ''gzip: invalid header'')),
      Decode = (\<lambda>r. Inr m)\<rparr>"

section \<open>Properties of the two loops\<close>

lemma logf_fields [simp]:
  "state (logf sd msg) = state sd" "statePath (logf sd msg) = statePath sd"
  "interval (logf sd msg) = interval sd" "bootstrap (logf sd msg) = bootstrap sd"
  by (simp_all add: logf_def split: option.splits)

lemma logf_logger: "logger (logf sd msg) = map_option (\<lambda>out. out @ [msg]) (logger sd)"
  by (simp add: logf_def split: option.splits)

lemma isEqual_lookup:
  "(case m k of None \<Rightarrow> False | Some unit \<Rightarrow> isEqual unit s) = (m k = Some (Unit s))"
proof (cases "m k")
  case None then show ?thesis by simp
next
  case (Some u) then show ?thesis by (cases u) (auto simp: isEqual_def)
qed

lemma report_fields [simp]:
  "state (report first s sd) = state sd" "statePath (report first s sd) = statePath sd"
  "interval (report first s sd) = interval sd" "bootstrap (report first s sd) = bootstrap sd"
  by (simp_all add: report_def)

lemma update_units_Cons:
  "update_units first (s # ss) (sd, flush) =
     (if state sd (Path s) = Some (Unit s) then update_units first ss (sd, flush)
      else update_units first ss (report first s (sd\<lparr>state := (state sd)(Path s \<mapsto> Unit s)\<rparr>), True))"
  by (simp add: isEqual_lookup report_def)



lemma update_units_other:
  "k \<notin> Path ` set C \<Longrightarrow> state (fst (update_units first C (sd, fl))) k = state sd k"
  by (induction C arbitrary: sd fl) (auto simp: update_units_Cons simp del: update_units.simps(2))

lemma update_units_listed:
  "distinct (map Path C) \<Longrightarrow> s \<in> set C \<Longrightarrow>
     state (fst (update_units first C (sd, fl))) (Path s) = Some (Unit s)"
proof (induction C arbitrary: sd fl)
  case Nil then show ?case by simp
next
  case (Cons a C)
  show ?case
  proof (cases "s = a")
    case True
    with Cons.prems have "Path a \<notin> Path ` set C" by simp
    then show ?thesis using True
      by (simp add: update_units_Cons update_units_other del: update_units.simps(2))
  next
    case False
    with Cons show ?thesis by (simp add: update_units_Cons del: update_units.simps(2))
  qed
qed

lemma update_units_state:
  assumes "distinct (map Path C)"
  shows "state (fst (update_units first C (sd, fl))) = state sd ++ map_of (map (\<lambda>s. (Path s, Unit s)) C)"
proof
  fix k
  show "state (fst (update_units first C (sd, fl))) k = (state sd ++ map_of (map (\<lambda>s. (Path s, Unit s)) C)) k"
  proof (cases "k \<in> Path ` set C")
    case True
    then obtain s where s: "s \<in> set C" "k = Path s" by auto
    have "map_of (map (\<lambda>s. (Path s, Unit s)) C) (Path s) = Some (Unit s)"
      using assms s(1) by (intro map_of_is_SomeI) (auto simp: comp_def)
    then show ?thesis using update_units_listed[OF assms s(1)] s(2) by (simp add: map_add_def)
  next
    case False
    then have "map_of (map (\<lambda>s. (Path s, Unit s)) C) k = None"
      by (auto simp: map_of_eq_None_iff image_image)
    then show ?thesis using update_units_other[OF False] by (simp add: map_add_def)
  qed
qed

lemma update_units_fields:
  "statePath (fst (update_units first C (sd, fl))) = statePath sd"
  "interval (fst (update_units first C (sd, fl))) = interval sd"
  "bootstrap (fst (update_units first C (sd, fl))) = bootstrap sd"
  by (induction C arbitrary: sd fl) (simp_all add: update_units_Cons del: update_units.simps(2))

lemma update_units_quiet:
  "bootstrap sd \<and> first \<Longrightarrow> logger (fst (update_units first C (sd, fl))) = logger sd"
  by (induction C arbitrary: sd fl) (simp_all add: update_units_Cons report_def del: update_units.simps(2))

lemma update_units_nil_logger:
  "logger sd = None \<Longrightarrow> logger (fst (update_units first C (sd, fl))) = None"
  by (induction C arbitrary: sd fl)
     (simp_all add: update_units_Cons report_def logf_logger del: update_units.simps(2))

lemma filter_changed_upd:
  assumes "Path a \<notin> Path ` set C"
  shows "filter (\<lambda>s. ((m(Path a \<mapsto> u)) (Path s) \<noteq> Some (Unit s))) C =
         filter (\<lambda>s. m (Path s) \<noteq> Some (Unit s)) C"
proof (rule filter_cong[OF refl])
  fix x assume "x \<in> set C"
  then have "Path x \<noteq> Path a" using assms by (metis image_eqI)
  then show "((m(Path a \<mapsto> u)) (Path x) \<noteq> Some (Unit x)) = (m (Path x) \<noteq> Some (Unit x))"
    by simp
qed

lemma update_units_logger:
  "distinct (map Path C) \<Longrightarrow> \<not> (bootstrap sd \<and> first) \<Longrightarrow> logger sd = Some out \<Longrightarrow>
     logger (fst (update_units first C (sd, fl))) =
       Some (out @ map status_msg (filter (\<lambda>s. state sd (Path s) \<noteq> Some (Unit s)) C))"
proof (induction C arbitrary: sd fl out)
  case Nil then show ?case by simp
next
  case (Cons a C)
  have notin: "Path a \<notin> Path ` set C" using Cons.prems(1) by simp
  have d: "distinct (map Path C)" using Cons.prems(1) by simp
  show ?case
  proof (cases "state sd (Path a) = Some (Unit a)")
    case True
    then show ?thesis using Cons.IH[OF d Cons.prems(2) Cons.prems(3)]
      by (simp add: update_units_Cons del: update_units.simps(2))
  next
    case False
    let ?sd = "report first a (sd\<lparr>state := (state sd)(Path a \<mapsto> Unit a)\<rparr>)"
    have l: "logger ?sd = Some (out @ [status_msg a])"
      using Cons.prems(2,3) by (simp add: report_def logf_logger)
    have b: "\<not> (bootstrap ?sd \<and> first)" using Cons.prems(2) by simp
    have st: "state ?sd = (state sd)(Path a \<mapsto> Unit a)" by simp
    have ih: "logger (fst (update_units first C (?sd, True))) =
       Some ((out @ [status_msg a]) @
             map status_msg (filter (\<lambda>s. state sd (Path s) \<noteq> Some (Unit s)) C))"
      using Cons.IH[OF d b l, of True] unfolding st filter_changed_upd[OF notin] .
    show ?thesis using ih False
      by (simp add: update_units_Cons del: update_units.simps(2))
  qed
qed

lemma update_units_flush:
  "distinct (map Path C) \<Longrightarrow>
   snd (update_units first C (sd, fl)) = (fl \<or> filter (\<lambda>s. state sd (Path s) \<noteq> Some (Unit s)) C \<noteq> [])"
proof (induction C arbitrary: sd fl)
  case Nil then show ?case by simp
next
  case (Cons a C)
  have notin: "Path a \<notin> Path ` set C" using Cons.prems(1) by simp
  have d: "distinct (map Path C)" using Cons.prems(1) by simp
  show ?case
    by (simp add: update_units_Cons Cons.IH[OF d] del: update_units.simps(2))
qed


lemma remove_units_Cons:
  "remove_units units (path # ks) (sd, fl) =
     (if state sd path \<noteq> None \<and> path \<notin> Path ` set units
      then remove_units units ks
             (logf (sd\<lparr>state := (state sd)(path := None)\<rparr>) (deleted_msg (the (state sd path))), True)
      else remove_units units ks (sd, fl))"
  by (cases "state sd path") simp_all

lemma remove_units_state:
  "state (fst (remove_units units ks (sd, fl))) k =
     (if k \<in> set ks \<and> k \<notin> Path ` set units then None else state sd k)"
  by (induction ks arbitrary: sd fl)
     (auto simp: remove_units_Cons simp del: remove_units.simps(2))

lemma remove_units_fields:
  "statePath (fst (remove_units units ks (sd, fl))) = statePath sd"
  "interval (fst (remove_units units ks (sd, fl))) = interval sd"
  "bootstrap (fst (remove_units units ks (sd, fl))) = bootstrap sd"
  by (induction ks arbitrary: sd fl) (simp_all add: remove_units_Cons del: remove_units.simps(2))

lemma remove_units_nil_logger:
  "logger sd = None \<Longrightarrow> logger (fst (remove_units units ks (sd, fl))) = None"
  by (induction ks arbitrary: sd fl)
     (simp_all add: remove_units_Cons logf_logger del: remove_units.simps(2))

lemma filter_stale_upd:
  assumes "path \<notin> set ks"
  shows "filter (\<lambda>k. (m(path := None)) k \<noteq> None \<and> k \<notin> P) ks = filter (\<lambda>k. m k \<noteq> None \<and> k \<notin> P) ks"
    and "map (\<lambda>k. f (the ((m(path := None)) k))) (filter (\<lambda>k. m k \<noteq> None \<and> k \<notin> P) ks) =
         map (\<lambda>k. f (the (m k))) (filter (\<lambda>k. m k \<noteq> None \<and> k \<notin> P) ks)"
proof -
  show "filter (\<lambda>k. (m(path := None)) k \<noteq> None \<and> k \<notin> P) ks = filter (\<lambda>k. m k \<noteq> None \<and> k \<notin> P) ks"
    using assms by (intro filter_cong) auto
  show "map (\<lambda>k. f (the ((m(path := None)) k))) (filter (\<lambda>k. m k \<noteq> None \<and> k \<notin> P) ks) =
         map (\<lambda>k. f (the (m k))) (filter (\<lambda>k. m k \<noteq> None \<and> k \<notin> P) ks)"
    using assms by (intro map_cong) auto
qed

lemma remove_units_logger:
  "distinct ks \<Longrightarrow> logger sd = Some out \<Longrightarrow>
     logger (fst (remove_units units ks (sd, fl))) =
       Some (out @ map (\<lambda>k. deleted_msg (the (state sd k)))
                     (filter (\<lambda>k. state sd k \<noteq> None \<and> k \<notin> Path ` set units) ks))"
proof (induction ks arbitrary: sd fl out)
  case Nil then show ?case by simp
next
  case (Cons path ks)
  have notin: "path \<notin> set ks" and d: "distinct ks" using Cons.prems(1) by simp_all
  show ?case
  proof (cases "state sd path \<noteq> None \<and> path \<notin> Path ` set units")
    case False
    then show ?thesis using Cons.IH[OF d Cons.prems(2), of fl]
      by (auto simp add: remove_units_Cons simp del: remove_units.simps(2))
  next
    case True
    let ?sd = "logf (sd\<lparr>state := (state sd)(path := None)\<rparr>) (deleted_msg (the (state sd path)))"
    have l: "logger ?sd = Some (out @ [deleted_msg (the (state sd path))])"
      using Cons.prems(2) by (simp add: logf_logger)
    have st: "state ?sd = (state sd)(path := None)" by simp
    have ih: "logger (fst (remove_units units ks (?sd, True))) =
       Some ((out @ [deleted_msg (the (state sd path))]) @
             map (\<lambda>k. deleted_msg (the (state sd k)))
               (filter (\<lambda>k. state sd k \<noteq> None \<and> k \<notin> Path ` set units) ks))"
      using Cons.IH[OF d l, of True] unfolding st filter_stale_upd[OF notin] .
    show ?thesis using ih True
      by (simp add: remove_units_Cons del: remove_units.simps(2))
  qed
qed

lemma remove_units_flush:
  "distinct ks \<Longrightarrow>
   snd (remove_units units ks (sd, fl)) =
     (fl \<or> filter (\<lambda>k. state sd k \<noteq> None \<and> k \<notin> Path ` set units) ks \<noteq> [])"
proof (induction ks arbitrary: sd fl)
  case Nil then show ?case by simp
next
  case (Cons path ks)
  have notin: "path \<notin> set ks" and d: "distinct ks" using Cons.prems(1) by simp_all
  show ?case
    by (simp add: remove_units_Cons Cons.IH[OF d] del: remove_units.simps(2))
qed



lemma remove_units_state_p:
  "state (fst (remove_units units ks p)) k =
     (if k \<in> set ks \<and> k \<notin> Path ` set units then None else state (fst p) k)"
  by (cases p) (simp only: remove_units_state fst_conv)

lemma remove_units_fields_p:
  "statePath (fst (remove_units units ks p)) = statePath (fst p)"
  "interval (fst (remove_units units ks p)) = interval (fst p)"
  "bootstrap (fst (remove_units units ks p)) = bootstrap (fst p)"
  by (cases p, simp only: remove_units_fields fst_conv)+

lemma remove_units_logger_p:
  "distinct ks \<Longrightarrow> logger (fst p) = Some out \<Longrightarrow>
     logger (fst (remove_units units ks p)) =
       Some (out @ map (\<lambda>k. deleted_msg (the (state (fst p) k)))
                     (filter (\<lambda>k. state (fst p) k \<noteq> None \<and> k \<notin> Path ` set units) ks))"
  by (cases p) (simp add: remove_units_logger)

lemma remove_units_flush_p:
  "distinct ks \<Longrightarrow>
   snd (remove_units units ks p) =
     (snd p \<or> filter (\<lambda>k. state (fst p) k \<noteq> None \<and> k \<notin> Path ` set units) ks \<noteq> [])"
  by (cases p) (simp add: remove_units_flush)

lemma cycle_state:
  assumes "distinct (map Path C)" "set ks = dom (state sd) \<union> Path ` set C"
  shows "state (fst (cycle first C ks sd)) = map_of (map (\<lambda>s. (Path s, Unit s)) C)"
proof
  fix k
  let ?new = "map_of (map (\<lambda>s. (Path s, Unit s)) C)"
  have dom_new: "dom ?new = Path ` set C"
    by (simp add: dom_map_of_conv_image_fst image_image)
  have mid: "state (fst (update_units first C (sd, False))) = state sd ++ ?new"
    by (rule update_units_state[OF assms(1)])
  show "state (fst (cycle first C ks sd)) k = ?new k"
  proof (cases "k \<in> Path ` set C")
    case True
    then obtain v where "?new k = Some v" using dom_new by blast
    then show ?thesis using True
      by (simp add: cycle_def remove_units_state_p mid map_add_def)
  next
    case False
    then have n: "?new k = None" using dom_new by blast
    have "k \<notin> set ks \<Longrightarrow> state sd k = None" using assms(2) by blast
    then show ?thesis using False n
      by (simp add: cycle_def remove_units_state_p mid map_add_def)
  qed
qed

lemma cycle_fields:
  "statePath (fst (cycle first C ks sd)) = statePath sd"
  "interval (fst (cycle first C ks sd)) = interval sd"
  "bootstrap (fst (cycle first C ks sd)) = bootstrap sd"
  by (simp_all add: cycle_def remove_units_fields_p update_units_fields)

lemma stale_keys:
  assumes "set ks = dom (state sd) \<union> Path ` set C"
  shows "filter (\<lambda>k. state (fst (update_units first C (sd, False))) k \<noteq> None \<and> k \<notin> Path ` set C) ks
         = filter (\<lambda>k. k \<notin> Path ` set C) ks"
proof (rule filter_cong[OF refl])
  fix k assume "k \<in> set ks"
  then have "k \<notin> Path ` set C \<Longrightarrow> state sd k \<noteq> None" using assms by blast
  then show "(state (fst (update_units first C (sd, False))) k \<noteq> None \<and> k \<notin> Path ` set C) =
             (k \<notin> Path ` set C)"
    by (cases "k \<in> Path ` set C") (simp_all add: update_units_other)
qed

lemma stale_msgs:
  "map (\<lambda>k. deleted_msg (the (state (fst (update_units first C (sd, False))) k)))
       (filter (\<lambda>k. k \<notin> Path ` set C) ks) =
   map (\<lambda>k. deleted_msg (the (state sd k))) (filter (\<lambda>k. k \<notin> Path ` set C) ks)"
  by (rule map_cong[OF refl]) (simp add: update_units_other)

lemma cycle_logger:
  assumes "distinct (map Path C)" "distinct ks" "set ks = dom (state sd) \<union> Path ` set C"
    "logger sd = Some out" "\<not> (bootstrap sd \<and> first)"
  shows "logger (fst (cycle first C ks sd)) =
     Some (out @ map status_msg (filter (\<lambda>s. state sd (Path s) \<noteq> Some (Unit s)) C)
               @ map (\<lambda>k. deleted_msg (the (state sd k))) (filter (\<lambda>k. k \<notin> Path ` set C) ks))"
proof -
  have "logger (fst (remove_units C ks (update_units first C (sd, False)))) =
     Some ((out @ map status_msg (filter (\<lambda>s. state sd (Path s) \<noteq> Some (Unit s)) C)) @
        map (\<lambda>k. deleted_msg (the (state (fst (update_units first C (sd, False))) k)))
          (filter (\<lambda>k. state (fst (update_units first C (sd, False))) k \<noteq> None \<and>
                       k \<notin> Path ` set C) ks))"
    by (rule remove_units_logger_p[OF assms(2) update_units_logger[OF assms(1,5,4)]])
  then show ?thesis
    unfolding cycle_def stale_keys[OF assms(3)] stale_msgs append_assoc .
qed

lemma cycle_flush:
  assumes "distinct (map Path C)" "distinct ks" "set ks = dom (state sd) \<union> Path ` set C"
  shows "snd (cycle first C ks sd) =
     (filter (\<lambda>s. state sd (Path s) \<noteq> Some (Unit s)) C \<noteq> [] \<or> filter (\<lambda>k. k \<notin> Path ` set C) ks \<noteq> [])"
proof -
  have "snd (remove_units C ks (update_units first C (sd, False))) =
     (snd (update_units first C (sd, False)) \<or>
      filter (\<lambda>k. state (fst (update_units first C (sd, False))) k \<noteq> None \<and>
                   k \<notin> Path ` set C) ks \<noteq> [])"
    by (rule remove_units_flush_p[OF assms(2)])
  then show ?thesis
    unfolding cycle_def stale_keys[OF assms(3)] update_units_flush[OF assms(1)] by simp
qed

lemma update_units_same:
  "(\<And>s. s \<in> set C \<Longrightarrow> state sd (Path s) = Some (Unit s)) \<Longrightarrow>
     update_units first C (sd, fl) = (sd, fl)"
  by (induction C) (simp_all add: update_units_Cons del: update_units.simps(2))

lemma remove_units_same:
  "dom (state sd) \<subseteq> Path ` set C \<Longrightarrow> remove_units C ks (sd, fl) = (sd, fl)"
proof (induction ks)
  case Nil then show ?case by simp
next
  case (Cons path ks)
  have "\<not> (state sd path \<noteq> None \<and> path \<notin> Path ` set C)" using Cons.prems by blast
  then show ?case using Cons by (auto simp add: remove_units_Cons simp del: remove_units.simps(2))
qed

lemma cycle_same:
  assumes "distinct (map Path C)" "state sd = map_of (map (\<lambda>s. (Path s, Unit s)) C)"
  shows "cycle first C ks sd = (sd, False)"
proof -
  have a: "\<And>s. s \<in> set C \<Longrightarrow> state sd (Path s) = Some (Unit s)"
    unfolding assms(2) using assms(1) by (intro map_of_is_SomeI) (auto simp: comp_def)
  have b: "dom (state sd) \<subseteq> Path ` set C"
    unfolding assms(2) by (simp add: dom_map_of_conv_image_fst image_image)
  show ?thesis by (simp add: cycle_def update_units_same[OF a] remove_units_same[OF b])
qed

lemma New_options:
  "New c fs None [WithStateFile path, WithLogger l, WithInterval d] =
     load c fs \<lparr>state = Map.empty, statePath = path, logger = l, interval = d, bootstrap = False\<rparr>"
  by (simp add: New_def WithStateFile_def WithLogger_def WithInterval_def)

lemma store_ok:
  assumes "fault fs (statePath sd) = (\<lambda>call. None)"
  shows "store c fs sd =
     (None, fs\<lparr>files := (files fs)(statePath sd \<mapsto>
        overwrite (Encode c (state sd)) (case files fs (statePath sd) of None \<Rightarrow> [] | Some old \<Rightarrow> old))\<rparr>)"
  using assms
  by (cases "files fs (statePath sd)")
     (simp_all add: store_def OpenFile_CREATE_WRONLY_def write_file_def)

lemma update_units_state_any:
  "state (fst (update_units first C (sd, fl))) =
     state sd ++ map_of (rev (map (\<lambda>s. (Path s, Unit s)) C))"
proof (induction C arbitrary: sd fl)
  case Nil then show ?case by simp
next
  case (Cons a C)
  have r: "m ++ map_of (rev (map (\<lambda>s. (Path s, Unit s)) (a # C))) =
           m(Path a \<mapsto> Unit a) ++ map_of (rev (map (\<lambda>s. (Path s, Unit s)) C))" for m
    by (simp add: map_add_upd_left fun_eq_iff map_add_def split: option.splits)
  let ?X = "map_of (rev (map (\<lambda>s. (Path s, Unit s)) C))"
  show ?case
  proof (cases "state sd (Path a) = Some (Unit a)")
    case True
    then have same: "(state sd)(Path a \<mapsto> Unit a) = state sd" by (auto simp: fun_eq_iff)
    have A: "update_units first (a # C) (sd, fl) = update_units first C (sd, fl)"
      using True by (simp add: update_units_Cons del: update_units.simps(2))
    have "state (fst (update_units first C (sd, fl))) = state sd ++ ?X" by (rule Cons.IH)
    then have "state (fst (update_units first C (sd, fl))) = (state sd)(Path a \<mapsto> Unit a) ++ ?X"
      unfolding same .
    then show ?thesis unfolding A r .
  next
    case False
    let ?sd = "report first a (sd\<lparr>state := (state sd)(Path a \<mapsto> Unit a)\<rparr>)"
    have A: "update_units first (a # C) (sd, fl) = update_units first C (?sd, True)"
      using False by (simp add: update_units_Cons del: update_units.simps(2))
    have st: "state ?sd = (state sd)(Path a \<mapsto> Unit a)" by simp
    have "state (fst (update_units first C (?sd, True))) = state ?sd ++ ?X" by (rule Cons.IH)
    then have "state (fst (update_units first C (?sd, True))) = (state sd)(Path a \<mapsto> Unit a) ++ ?X"
      unfolding st .
    then show ?thesis unfolding A r .
  qed
qed

lemma update_units_flush_mono:
  "snd (update_units first C (sd, True))"
  by (induction C arbitrary: sd) (simp_all add: update_units_Cons del: update_units.simps(2))

lemma update_units_flush_fresh:
  "state sd = Map.empty \<Longrightarrow> C \<noteq> [] \<Longrightarrow> snd (update_units first C (sd, fl))"
  by (cases C) (simp_all add: update_units_Cons update_units_flush_mono del: update_units.simps(2))

lemma cycle_bootstrap_any:
  assumes "bootstrap sd" "state sd = Map.empty"
  shows "cycle True C ks sd =
     (sd\<lparr>state := map_of (rev (map (\<lambda>s. (Path s, Unit s)) C))\<rparr>, C \<noteq> [])"
proof -
  obtain sd1 fl where u: "update_units True C (sd, False) = (sd1, fl)" by force
  have st: "state sd1 = map_of (rev (map (\<lambda>s. (Path s, Unit s)) C))"
    using update_units_state_any[of True C sd False] u assms(2) by simp
  have lg: "logger sd1 = logger sd"
    using update_units_quiet[of sd True C False] u assms(1) by simp
  have fd: "statePath sd1 = statePath sd" "interval sd1 = interval sd" "bootstrap sd1 = bootstrap sd"
    using update_units_fields[of True C sd False] u by simp_all
  have fl: "fl = (C \<noteq> [])"
  proof (cases C)
    case Nil then show ?thesis using u by simp
  next
    case (Cons a as)
    then show ?thesis using update_units_flush_fresh[OF assms(2), of C True False] u by simp
  qed
  have eq: "sd1 = sd\<lparr>state := map_of (rev (map (\<lambda>s. (Path s, Unit s)) C))\<rparr>"
    by (rule Systemd.equality) (simp_all add: st lg fd)
  have "dom (state sd1) \<subseteq> Path ` set C"
    unfolding st by (simp add: dom_map_of_conv_image_fst image_image)
  then have "remove_units C ks (sd1, fl) = (sd1, fl)" by (rule remove_units_same)
  then show ?thesis unfolding cycle_def u eq fl .
qed

lemma update_units_later:
  "update_units False C (sd\<lparr>bootstrap := b\<rparr>, fl) =
     (fst (update_units False C (sd, fl))\<lparr>bootstrap := b\<rparr>, snd (update_units False C (sd, fl)))"
proof (induction C arbitrary: sd fl)
  case Nil then show ?case by simp
next
  case (Cons a C)
  show ?case
  proof (cases "state sd (Path a) = Some (Unit a)")
    case True
    have A: "update_units False (a # C) (sd\<lparr>bootstrap := b\<rparr>, fl) =
             update_units False C (sd\<lparr>bootstrap := b\<rparr>, fl)"
      using True by (simp add: update_units_Cons del: update_units.simps(2))
    have B: "update_units False (a # C) (sd, fl) = update_units False C (sd, fl)"
      using True by (simp add: update_units_Cons del: update_units.simps(2))
    show ?thesis unfolding A B by (rule Cons.IH)
  next
    case False
    let ?sd = "report False a (sd\<lparr>state := (state sd)(Path a \<mapsto> Unit a)\<rparr>)"
    have A: "update_units False (a # C) (sd\<lparr>bootstrap := b\<rparr>, fl) =
             update_units False C (?sd\<lparr>bootstrap := b\<rparr>, True)"
      using False
      by (cases sd)
         (simp add: update_units_Cons report_def logf_def del: update_units.simps(2)
               split: option.splits)
    have B: "update_units False (a # C) (sd, fl) = update_units False C (?sd, True)"
      using False by (simp add: update_units_Cons del: update_units.simps(2))
    show ?thesis unfolding A B by (rule Cons.IH)
  qed
qed

lemma remove_units_later:
  "remove_units C ks (sd\<lparr>bootstrap := b\<rparr>, fl) =
     (fst (remove_units C ks (sd, fl))\<lparr>bootstrap := b\<rparr>, snd (remove_units C ks (sd, fl)))"
proof (induction ks arbitrary: sd fl)
  case Nil then show ?case by simp
next
  case (Cons path ks)
  show ?case
  proof (cases "state sd path \<noteq> None \<and> path \<notin> Path ` set C")
    case True
    let ?sd = "logf (sd\<lparr>state := (state sd)(path := None)\<rparr>) (deleted_msg (the (state sd path)))"
    have A: "remove_units C (path # ks) (sd\<lparr>bootstrap := b\<rparr>, fl) =
             remove_units C ks (?sd\<lparr>bootstrap := b\<rparr>, True)"
      using True
      by (cases sd)
         (simp add: remove_units_Cons logf_def del: remove_units.simps(2) split: option.splits)
    have B: "remove_units C (path # ks) (sd, fl) = remove_units C ks (?sd, True)"
      using True by (simp add: remove_units_Cons del: remove_units.simps(2))
    show ?thesis unfolding A B by (rule Cons.IH)
  next
    case False
    have A: "remove_units C (path # ks) (sd\<lparr>bootstrap := b\<rparr>, fl) =
             remove_units C ks (sd\<lparr>bootstrap := b\<rparr>, fl)"
      using False by (auto simp add: remove_units_Cons simp del: remove_units.simps(2))
    have B: "remove_units C (path # ks) (sd, fl) = remove_units C ks (sd, fl)"
      using False by (auto simp add: remove_units_Cons simp del: remove_units.simps(2))
    show ?thesis unfolding A B by (rule Cons.IH)
  qed
qed

lemma cycle_later:
  "cycle False C ks (sd\<lparr>bootstrap := b\<rparr>) =
     (fst (cycle False C ks sd)\<lparr>bootstrap := b\<rparr>, snd (cycle False C ks sd))"
proof -
  obtain sd1 fl where u: "update_units False C (sd, False) = (sd1, fl)" by force
  show ?thesis by (simp add: cycle_def update_units_later u remove_units_later)
qed


lemma New_missing:
  assumes "files fs path = None" "fault fs path SysLstat = None"
  shows "New c fs None [WithStateFile path, WithLogger l, WithInterval d] =
        Inr \<lparr>state = Map.empty, statePath = path,
             logger = map_option (\<lambda>out. out @ [bootstrap_msg]) l, interval = d,
             bootstrap = True\<rparr>"
  using assms by (cases l) (simp_all add: New_options load_def Lstat_def IsNotExist_def logf_def)

lemma New_zero_length:
  assumes "files fs path = Some []" "fault fs path SysLstat = None"
  shows "New c fs None [WithStateFile path, WithLogger l, WithInterval d] =
        Inr \<lparr>state = Map.empty, statePath = path, logger = l, interval = d,
             bootstrap = False\<rparr>"
  using assms by (simp add: New_options load_def Lstat_def)

lemma Next_loop_result:
  "fst (Next_loop c first polls sd fs) = None \<or>
   (\<exists>err. fst (Next_loop c first polls sd fs) = Some ([], err))"
  by (induction polls arbitrary: first sd fs) (auto split: sum.splits prod.splits option.splits)

lemma Next_loop_append:
  "Next_loop c first qs sd fs = (None, sd1, fs1, rest) \<Longrightarrow>
     Next_loop c first (qs @ ps) sd fs = Next_loop c (first \<and> qs = []) ps sd1 fs1"
  by (induction qs arbitrary: first sd fs)
     (auto split: sum.splits prod.splits option.splits if_splits)

lemma Next_loop_single:
  "Next_loop c b [\<lparr>listing = Inr units, order = ks\<rparr>] sd0 fs0 = (None, sd1, fs1, r1) \<Longrightarrow>
     \<exists>fl. cycle b units ks sd0 = (sd1, fl)"
  by (auto split: prod.splits if_splits option.splits)

lemma Next_loop_bootstrap:
  "Next_loop c first qs sd fs = (x, sd', fs', r) \<Longrightarrow> bootstrap sd' = bootstrap sd"
proof (induction qs arbitrary: first sd fs)
  case Nil then show ?case by simp
next
  case (Cons p qs)
  show ?case
  proof (cases "listing p")
    case (Inl err) then show ?thesis using Cons.prems by simp
  next
    case (Inr units)
    obtain sd2 fl where cyc: "cycle first units (order p) sd = (sd2, fl)" by force
    have b: "bootstrap sd2 = bootstrap sd" using cycle_fields(3)[of first units "order p" sd] cyc by simp
    show ?thesis
    proof (cases fl)
      case False
      then show ?thesis using Cons.prems Inr cyc b Cons.IH[of False sd2 fs] by simp
    next
      case True
      obtain e fs2 where st: "store c fs sd2 = (e, fs2)" by force
      show ?thesis
      proof (cases e)
        case None
        then show ?thesis using Cons.prems Inr cyc b True st Cons.IH[of False sd2 fs2] by simp
      next
        case (Some err)
        then show ?thesis using Cons.prems Inr cyc b True st by simp
      qed
    qed
  qed
qed

lemmas example_defs = nginx_def nginx_failed_def cron_def watcher_def disk_def readonly_disk_def
  full_disk_def fixed_codec_def DefaultStateFile_def DefaultInterval_def

section \<open>The claims\<close>

text \<open>
  Claim C1 says that \<open>Next\<close> hands each successful cycle's transitions to its caller. The
  code does not: whatever the connection answers, a call of \<open>Next\<close> either is still in its
  loop or has returned a nil list together with an error. The transitions go to the log.
\<close>

theorem Next_never_yields:
  "fst (Next c polls sd fs) = None \<or> (\<exists>err. fst (Next c polls sd fs) = Some ([], err))"
  unfolding Next_def by (rule Next_loop_result)

text \<open>
  One successful poll that finds a new unit: the line is logged, the snapshot stored, and
  the call has not returned.
\<close>

lemma Next_logs_instead:
  "Next (fixed_codec Map.empty) [\<lparr>listing = Inr [nginx], order = [Path nginx]\<rparr>]
        (watcher Map.empty) (disk Map.empty) =
     (None,
      (watcher [Path nginx \<mapsto> Unit nginx])
        \<lparr>logger := Some [''nginx.service active=active load=loaded sub=running'']\<rparr>,
      disk [DefaultStateFile \<mapsto> [0x1f, 0x8b]], [])"
  by (simp add: Next_def cycle_def watcher_def disk_def fixed_codec_def nginx_def isEqual_def
        logf_def status_msg_def store_def OpenFile_CREATE_WRONLY_def write_file_def
        overwrite_def DefaultStateFile_def)

text \<open>
  Claim C2: when the state file does not exist, \<open>New\<close> returns the watcher \<open>fresh\<close>, in
  bootstrap mode. Its first cycle over a non-empty listing logs nothing and leaves in the
  snapshot exactly the listed units, each path with the record the listing gives for it
  (the last one, should a path be listed twice), and \<open>Next\<close> stores it and goes on with
  \<open>first\<close> false. Every later cycle of that call, after any further polls \<open>qs\<close>, finds the
  watcher still in bootstrap mode and yet logs as a cycle does outside it: for a listing
  of distinct paths and a range order \<open>ks'\<close> over the keys of the map, one status line
  for each listed unit that is new or differs, one \<open>deleted\<close> line for each key that the
  listing no longer holds, the snapshot becoming the listing.
\<close>

theorem bootstrap_first_cycle:
  assumes "files fs path = None" and "fault fs path SysLstat = None" and "units \<noteq> []"
    and fr: "fresh = \<lparr>state = Map.empty, statePath = path,
                     logger = map_option (\<lambda>out. out @ [bootstrap_msg]) l, interval = d,
                     bootstrap = True\<rparr>"
    and se: "seeded = fresh\<lparr>state := map_of (rev (map (\<lambda>s. (Path s, Unit s)) units))\<rparr>"
    and po: "poll = \<lparr>listing = Inr units, order = ks\<rparr>"
    and po': "poll' = \<lparr>listing = Inr C, order = ks'\<rparr>"
  shows "New c fs None [WithStateFile path, WithLogger l, WithInterval d] = Inr fresh \<and>
      bootstrap fresh \<and>
      cycle True units ks fresh = (seeded, True) \<and>
      Next c (poll # ps) fresh fs =
        (case store c fs seeded of
           (Some err, fs') \<Rightarrow> (Some ([], err), seeded, fs', ps)
         | (None, fs') \<Rightarrow> Next_loop c False ps seeded fs') \<and>
      cycle False units' ks'' seeded =
        (fst (cycle False units' ks'' (seeded\<lparr>bootstrap := False\<rparr>))\<lparr>bootstrap := True\<rparr>,
         snd (cycle False units' ks'' (seeded\<lparr>bootstrap := False\<rparr>))) \<and>
      (Next c (poll # qs) fresh fs = (None, sdk, fsk, r) \<and>
       distinct (map Path C) \<and> distinct ks' \<and> set ks' = dom (state sdk) \<union> Path ` set C \<and>
       logger sdk = Some out \<longrightarrow>
         bootstrap sdk \<and>
         cycle False C ks' sdk =
           (sdk\<lparr>state := map_of (map (\<lambda>s. (Path s, Unit s)) C),
                logger := Some (out @ map status_msg (filter (\<lambda>s. state sdk (Path s) \<noteq> Some (Unit s)) C)
                     @ map (\<lambda>k. deleted_msg (the (state sdk k))) (filter (\<lambda>k. k \<notin> Path ` set C) ks'))\<rparr>,
            filter (\<lambda>s. state sdk (Path s) \<noteq> Some (Unit s)) C \<noteq> [] \<or>
            filter (\<lambda>k. k \<notin> Path ` set C) ks' \<noteq> []) \<and>
         Next c (poll # qs @ poll' # ps') fresh fs = Next_loop c False (poll' # ps') sdk fsk)"
proof -
  let ?sd1 = "\<lparr>state = map_of (rev (map (\<lambda>s. (Path s, Unit s)) units)), statePath = path,
             logger = map_option (\<lambda>out. out @ [bootstrap_msg]) l, interval = d,
             bootstrap = True\<rparr>"
  have sd1': "seeded = ?sd1" unfolding se fr by simp
  have new: "New c fs None [WithStateFile path, WithLogger l, WithInterval d] = Inr fresh"
    unfolding fr by (rule New_missing[OF assms(1,2)])
  have boot: "bootstrap fresh" unfolding fr by simp
  have cyc: "cycle True units ks fresh = (seeded, True)"
    using cycle_bootstrap_any[of fresh units ks] assms(3) unfolding se fr by simp
  have nxt: "Next c (poll # ps) fresh fs =
        (case store c fs seeded of
           (Some err, fs') \<Rightarrow> (Some ([], err), seeded, fs', ps)
         | (None, fs') \<Rightarrow> Next_loop c False ps seeded fs')"
    by (simp add: Next_def cyc po)
  have later: "cycle False units' ks'' seeded =
        (fst (cycle False units' ks'' (seeded\<lparr>bootstrap := False\<rparr>))\<lparr>bootstrap := True\<rparr>,
         snd (cycle False units' ks'' (seeded\<lparr>bootstrap := False\<rparr>)))"
    using cycle_later[where C = units' and ks = ks'' and sd = "?sd1\<lparr>bootstrap := False\<rparr>" and b = True]
    unfolding sd1' by simp
  have sub: "bootstrap sdk \<and>
         cycle False C ks' sdk =
           (sdk\<lparr>state := map_of (map (\<lambda>s. (Path s, Unit s)) C),
                logger := Some (out @ map status_msg (filter (\<lambda>s. state sdk (Path s) \<noteq> Some (Unit s)) C)
                     @ map (\<lambda>k. deleted_msg (the (state sdk k))) (filter (\<lambda>k. k \<notin> Path ` set C) ks'))\<rparr>,
            filter (\<lambda>s. state sdk (Path s) \<noteq> Some (Unit s)) C \<noteq> [] \<or>
            filter (\<lambda>k. k \<notin> Path ` set C) ks' \<noteq> []) \<and>
         Next c (poll # qs @ poll' # ps') fresh fs = Next_loop c False (poll' # ps') sdk fsk"
    if run: "Next c (poll # qs) fresh fs = (None, sdk, fsk, r)"
      and dC: "distinct (map Path C)" and dk: "distinct ks'"
      and sk: "set ks' = dom (state sdk) \<union> Path ` set C" and lg: "logger sdk = Some out"
  proof -
    have b: "bootstrap sdk"
      using Next_loop_bootstrap[of c True "poll # qs" fresh fs None sdk fsk r] run boot
      by (simp add: Next_def)
    have nf: "\<not> (bootstrap sdk \<and> False)" by simp
    have e1: "fst (cycle False C ks' sdk) =
           sdk\<lparr>state := map_of (map (\<lambda>s. (Path s, Unit s)) C),
                logger := Some (out @ map status_msg (filter (\<lambda>s. state sdk (Path s) \<noteq> Some (Unit s)) C)
                     @ map (\<lambda>k. deleted_msg (the (state sdk k))) (filter (\<lambda>k. k \<notin> Path ` set C) ks'))\<rparr>"
      by (rule Systemd.equality)
         (simp_all add: cycle_state[OF dC sk] cycle_fields cycle_logger[OF dC dk sk lg nf])
    have e2: "snd (cycle False C ks' sdk) =
           (filter (\<lambda>s. state sdk (Path s) \<noteq> Some (Unit s)) C \<noteq> [] \<or>
            filter (\<lambda>k. k \<notin> Path ` set C) ks' \<noteq> [])"
      by (rule cycle_flush[OF dC dk sk])
    have cy: "cycle False C ks' sdk =
           (sdk\<lparr>state := map_of (map (\<lambda>s. (Path s, Unit s)) C),
                logger := Some (out @ map status_msg (filter (\<lambda>s. state sdk (Path s) \<noteq> Some (Unit s)) C)
                     @ map (\<lambda>k. deleted_msg (the (state sdk k))) (filter (\<lambda>k. k \<notin> Path ` set C) ks'))\<rparr>,
            filter (\<lambda>s. state sdk (Path s) \<noteq> Some (Unit s)) C \<noteq> [] \<or>
            filter (\<lambda>k. k \<notin> Path ` set C) ks' \<noteq> [])"
      by (rule prod_eqI) (simp_all only: e1 e2 fst_conv snd_conv)
    have "Next_loop c True ((poll # qs) @ poll' # ps') fresh fs =
          Next_loop c (True \<and> poll # qs = []) (poll' # ps') sdk fsk"
      using run unfolding Next_def by (rule Next_loop_append)
    then have nx: "Next c (poll # qs @ poll' # ps') fresh fs = Next_loop c False (poll' # ps') sdk fsk"
      by (simp add: Next_def)
    show ?thesis by (rule conjI[OF b conjI[OF cy nx]])
  qed
  have imp: "Next c (poll # qs) fresh fs = (None, sdk, fsk, r) \<and>
       distinct (map Path C) \<and> distinct ks' \<and> set ks' = dom (state sdk) \<union> Path ` set C \<and>
       logger sdk = Some out \<longrightarrow>
         bootstrap sdk \<and>
         cycle False C ks' sdk =
           (sdk\<lparr>state := map_of (map (\<lambda>s. (Path s, Unit s)) C),
                logger := Some (out @ map status_msg (filter (\<lambda>s. state sdk (Path s) \<noteq> Some (Unit s)) C)
                     @ map (\<lambda>k. deleted_msg (the (state sdk k))) (filter (\<lambda>k. k \<notin> Path ` set C) ks'))\<rparr>,
            filter (\<lambda>s. state sdk (Path s) \<noteq> Some (Unit s)) C \<noteq> [] \<or>
            filter (\<lambda>k. k \<notin> Path ` set C) ks' \<noteq> []) \<and>
         Next c (poll # qs @ poll' # ps') fresh fs = Next_loop c False (poll' # ps') sdk fsk"
  proof (intro impI, elim conjE)
    assume "Next c (poll # qs) fresh fs = (None, sdk, fsk, r)" "distinct (map Path C)" "distinct ks'"
      "set ks' = dom (state sdk) \<union> Path ` set C" "logger sdk = Some out"
    then show "bootstrap sdk \<and>
         cycle False C ks' sdk =
           (sdk\<lparr>state := map_of (map (\<lambda>s. (Path s, Unit s)) C),
                logger := Some (out @ map status_msg (filter (\<lambda>s. state sdk (Path s) \<noteq> Some (Unit s)) C)
                     @ map (\<lambda>k. deleted_msg (the (state sdk k))) (filter (\<lambda>k. k \<notin> Path ` set C) ks'))\<rparr>,
            filter (\<lambda>s. state sdk (Path s) \<noteq> Some (Unit s)) C \<noteq> [] \<or>
            filter (\<lambda>k. k \<notin> Path ` set C) ks' \<noteq> []) \<and>
         Next c (poll # qs @ poll' # ps') fresh fs = Next_loop c False (poll' # ps') sdk fsk"
      by (rule sub)
  qed
  show ?thesis
    by (rule conjI[OF new conjI[OF boot conjI[OF cyc conjI[OF nxt conjI[OF later imp]]]]])
qed

theorem bootstrap_first_cycle_witness:
  "files (disk Map.empty) DefaultStateFile = None \<and>
   fault (disk Map.empty) DefaultStateFile SysLstat = None \<and>
   [nginx, cron] \<noteq> [] \<and>
   New (fixed_codec Map.empty) (disk Map.empty) None
     [WithStateFile DefaultStateFile, WithLogger (Some []), WithInterval DefaultInterval] =
     Inr ((watcher Map.empty)\<lparr>logger := Some [bootstrap_msg], bootstrap := True\<rparr>) \<and>
   cycle True [nginx, cron] [Path nginx, Path cron]
       ((watcher Map.empty)\<lparr>logger := Some [bootstrap_msg], bootstrap := True\<rparr>) =
     ((watcher [Path nginx \<mapsto> Unit nginx, Path cron \<mapsto> Unit cron])
        \<lparr>logger := Some [bootstrap_msg], bootstrap := True\<rparr>, True) \<and>
   Next (fixed_codec Map.empty)
       [\<lparr>listing = Inr [nginx, cron], order = [Path nginx, Path cron]\<rparr>]
       ((watcher Map.empty)\<lparr>logger := Some [bootstrap_msg], bootstrap := True\<rparr>) (disk Map.empty) =
     (None,
      (watcher [Path nginx \<mapsto> Unit nginx, Path cron \<mapsto> Unit cron])
        \<lparr>logger := Some [bootstrap_msg], bootstrap := True\<rparr>,
      disk [DefaultStateFile \<mapsto> [0x1f, 0x8b]], []) \<and>
   distinct (map Path [nginx_failed]) \<and>
   distinct [Path cron, Path nginx] \<and>
   set [Path cron, Path nginx] =
     dom (state ((watcher [Path nginx \<mapsto> Unit nginx, Path cron \<mapsto> Unit cron])
                   \<lparr>logger := Some [bootstrap_msg], bootstrap := True\<rparr>)) \<union>
     Path ` set [nginx_failed] \<and>
   cycle False [nginx_failed] [Path cron, Path nginx]
       ((watcher [Path nginx \<mapsto> Unit nginx, Path cron \<mapsto> Unit cron])
          \<lparr>logger := Some [bootstrap_msg], bootstrap := True\<rparr>) =
     ((watcher [Path nginx \<mapsto> Unit nginx_failed])
        \<lparr>logger := Some [bootstrap_msg, ''nginx.service active=failed load=loaded sub=failed'',
                          ''cron.service deleted''],
         bootstrap := True\<rparr>, True) \<and>
   Next (fixed_codec Map.empty)
       [\<lparr>listing = Inr [nginx, cron], order = [Path nginx, Path cron]\<rparr>,
        \<lparr>listing = Inr [nginx_failed], order = [Path cron, Path nginx]\<rparr>]
       ((watcher Map.empty)\<lparr>logger := Some [bootstrap_msg], bootstrap := True\<rparr>) (disk Map.empty) =
     (None,
      (watcher [Path nginx \<mapsto> Unit nginx_failed])
        \<lparr>logger := Some [bootstrap_msg, ''nginx.service active=failed load=loaded sub=failed'',
                          ''cron.service deleted''],
         bootstrap := True\<rparr>,
      disk [DefaultStateFile \<mapsto> [0x1f, 0x8b]], [])"
proof -
  let ?c = "fixed_codec Map.empty"
  let ?fs = "disk Map.empty"
  let ?fs1 = "disk [DefaultStateFile \<mapsto> [0x1f, 0x8b]]"
  let ?sd0 = "\<lparr>state = Map.empty, statePath = DefaultStateFile,
               logger = map_option (\<lambda>out. out @ [bootstrap_msg]) (Some []),
               interval = DefaultInterval, bootstrap = True\<rparr>"
  let ?sd1 = "?sd0\<lparr>state := map_of (rev (map (\<lambda>s. (Path s, Unit s)) [nginx, cron]))\<rparr>"
  let ?p1 = "\<lparr>listing = Inr [nginx, cron], order = [Path nginx, Path cron]\<rparr>"
  let ?p2 = "\<lparr>listing = Inr [nginx_failed], order = [Path cron, Path nginx]\<rparr>"
  let ?B0 = "(watcher Map.empty)\<lparr>logger := Some [bootstrap_msg], bootstrap := True\<rparr>"
  let ?B1 = "(watcher [Path nginx \<mapsto> Unit nginx, Path cron \<mapsto> Unit cron])
        \<lparr>logger := Some [bootstrap_msg], bootstrap := True\<rparr>"
  have b0: "?sd0 = ?B0" by (simp add: watcher_def)
  have b1: "?sd1 = ?B1" by (simp add: watcher_def)
  have h1: "files ?fs DefaultStateFile = None" by (simp add: disk_def)
  have h2: "fault ?fs DefaultStateFile SysLstat = None" by (simp add: disk_def)
  have h3: "[nginx, cron] \<noteq> []" by simp
  note T = bootstrap_first_cycle[
      where fs = ?fs and path = DefaultStateFile and units = "[nginx, cron]"
        and c = ?c and d = DefaultInterval and l = "Some []" and ks = "[Path nginx, Path cron]"
        and C = "[nginx_failed]" and ks' = "[Path cron, Path nginx]" and qs = "[]" and ps = "[]"
        and ps' = "[]" and sdk = ?B1 and fsk = ?fs1 and r = "[]" and out = "[bootstrap_msg]"
        and units' = "[nginx_failed]" and ks'' = "[Path cron, Path nginx]"
        and fresh = ?sd0 and seeded = ?sd1 and poll = ?p1 and poll' = ?p2,
      OF h1 h2 h3 refl refl refl refl]
  have new: "New ?c ?fs None
     [WithStateFile DefaultStateFile, WithLogger (Some []), WithInterval DefaultInterval] = Inr ?B0"
    using T[THEN conjunct1] by (simp add: watcher_def)
  have cyc: "cycle True [nginx, cron] [Path nginx, Path cron] ?B0 = (?B1, True)"
    using T[THEN conjunct2, THEN conjunct2, THEN conjunct1] by (simp add: watcher_def)
  have run': "Next ?c [?p1] ?B0 ?fs = (None, ?B1, ?fs1, [])"
    using cyc
    by (simp add: Next_def store_def OpenFile_CREATE_WRONLY_def write_file_def overwrite_def
          watcher_def disk_def fixed_codec_def)
  have run: "Next ?c (?p1 # []) ?sd0 ?fs = (None, ?B1, ?fs1, [])"
    using run' b0 by simp
  have k1: "distinct (map Path [nginx_failed])" by simp
  have k2: "distinct [Path cron, Path nginx]" by (simp add: example_defs)
  have k3: "set [Path cron, Path nginx] = dom (state ?B1) \<union> Path ` set [nginx_failed]"
    by (auto simp: example_defs)
  have k4: "logger ?B1 = Some [bootstrap_msg]" by simp
  note S = T[THEN conjunct2, THEN conjunct2, THEN conjunct2, THEN conjunct2, THEN conjunct2,
      THEN mp, OF conjI[OF run conjI[OF k1 conjI[OF k2 conjI[OF k3 k4]]]]]
  have cyc2: "cycle False [nginx_failed] [Path cron, Path nginx] ?B1 =
     ((watcher [Path nginx \<mapsto> Unit nginx_failed])
        \<lparr>logger := Some [bootstrap_msg, ''nginx.service active=failed load=loaded sub=failed'',
                          ''cron.service deleted''],
         bootstrap := True\<rparr>, True)"
    using S[THEN conjunct2, THEN conjunct1]
    by (simp add: example_defs status_msg_def deleted_msg_def)
  have nxt2: "Next ?c [?p1, ?p2] ?B0 ?fs =
     (None,
      (watcher [Path nginx \<mapsto> Unit nginx_failed])
        \<lparr>logger := Some [bootstrap_msg, ''nginx.service active=failed load=loaded sub=failed'',
                          ''cron.service deleted''],
         bootstrap := True\<rparr>, ?fs1, [])"
    using S[THEN conjunct2, THEN conjunct2] cyc2 b0
    by (simp add: store_def OpenFile_CREATE_WRONLY_def write_file_def overwrite_def
          watcher_def disk_def fixed_codec_def)
  show ?thesis
    by (rule conjI[OF h1 conjI[OF h2 conjI[OF h3 conjI[OF new conjI[OF cyc conjI[OF run'
          conjI[OF k1 conjI[OF k2 conjI[OF k3 conjI[OF cyc2 nxt2]]]]]]]]]])
qed

text \<open>
  Claim C3, amended: outside the silent first pass of a bootstrap run, with a logger set,
  a listing of distinct paths and a range order \<open>ks\<close> that visits each key of the map
  once, a cycle logs one status line for each listed unit whose record is new or differs
  (in listing order, the two cases alike), then one \<open>deleted\<close> line for each key that the
  listing no longer holds, and nothing for a unit whose record is unchanged; the snapshot
  becomes the listing, keyed by path; \<open>flush\<close> tells whether any line was logged.
\<close>

theorem cycle_diff:
  assumes "distinct (map Path C)" "distinct ks" "set ks = dom (state sd) \<union> Path ` set C"
    "logger sd = Some out" "\<not> (bootstrap sd \<and> first)"
  shows "cycle first C ks sd =
     (sd\<lparr>state := map_of (map (\<lambda>s. (Path s, Unit s)) C),
         logger := Some (out @ map status_msg (filter (\<lambda>s. state sd (Path s) \<noteq> Some (Unit s)) C)
               @ map (\<lambda>k. deleted_msg (the (state sd k))) (filter (\<lambda>k. k \<notin> Path ` set C) ks))\<rparr>,
      filter (\<lambda>s. state sd (Path s) \<noteq> Some (Unit s)) C \<noteq> [] \<or> filter (\<lambda>k. k \<notin> Path ` set C) ks \<noteq> [])"
proof (rule prod_eqI)
  show "fst (cycle first C ks sd) = fst (sd\<lparr>state := map_of (map (\<lambda>s. (Path s, Unit s)) C),
         logger := Some (out @ map status_msg (filter (\<lambda>s. state sd (Path s) \<noteq> Some (Unit s)) C)
               @ map (\<lambda>k. deleted_msg (the (state sd k))) (filter (\<lambda>k. k \<notin> Path ` set C) ks))\<rparr>,
      filter (\<lambda>s. state sd (Path s) \<noteq> Some (Unit s)) C \<noteq> [] \<or> filter (\<lambda>k. k \<notin> Path ` set C) ks \<noteq> [])"
    by (rule Systemd.equality)
       (simp_all add: cycle_state[OF assms(1,3)] cycle_fields cycle_logger[OF assms])
  show "snd (cycle first C ks sd) = snd (sd\<lparr>state := map_of (map (\<lambda>s. (Path s, Unit s)) C),
         logger := Some (out @ map status_msg (filter (\<lambda>s. state sd (Path s) \<noteq> Some (Unit s)) C)
               @ map (\<lambda>k. deleted_msg (the (state sd k))) (filter (\<lambda>k. k \<notin> Path ` set C) ks))\<rparr>,
      filter (\<lambda>s. state sd (Path s) \<noteq> Some (Unit s)) C \<noteq> [] \<or> filter (\<lambda>k. k \<notin> Path ` set C) ks \<noteq> [])"
    by (simp add: cycle_flush[OF assms(1,2,3)])
qed

theorem cycle_diff_witness:
  "distinct (map Path [nginx_failed]) \<and>
   distinct [Path cron, Path nginx] \<and>
   set [Path cron, Path nginx] =
     dom (state (watcher [Path cron \<mapsto> Unit cron, Path nginx \<mapsto> Unit nginx])) \<union>
     Path ` set [nginx_failed] \<and>
   logger (watcher [Path cron \<mapsto> Unit cron, Path nginx \<mapsto> Unit nginx]) = Some [] \<and>
   \<not> (bootstrap (watcher [Path cron \<mapsto> Unit cron, Path nginx \<mapsto> Unit nginx]) \<and> False) \<and>
   cycle False [nginx_failed] [Path cron, Path nginx]
       (watcher [Path cron \<mapsto> Unit cron, Path nginx \<mapsto> Unit nginx]) =
     ((watcher [Path nginx \<mapsto> Unit nginx_failed])
        \<lparr>logger := Some [''nginx.service active=failed load=loaded sub=failed'',
                          ''cron.service deleted'']\<rparr>,
      True)"
proof -
  let ?sd = "watcher [Path cron \<mapsto> Unit cron, Path nginx \<mapsto> Unit nginx]"
  have h1: "distinct (map Path [nginx_failed])" by simp
  have h2: "distinct [Path cron, Path nginx]" by (simp add: example_defs)
  have h3: "set [Path cron, Path nginx] = dom (state ?sd) \<union> Path ` set [nginx_failed]"
    by (auto simp: example_defs)
  have h4: "logger ?sd = Some []" by (simp add: watcher_def)
  have h5: "\<not> (bootstrap ?sd \<and> False)" by simp
  show ?thesis
    using h1 h2 h3 h4 h5 cycle_diff[OF h1 h2 h3 h4 h5]
    by (simp add: example_defs status_msg_def deleted_msg_def)
qed

text \<open>
  What the claim says and the code does not do: a unit that is new and a unit whose
  record has changed give the same line, so the two kinds cannot be told apart; on the
  silent first pass of a bootstrap run a new unit gives no line; and with a nil logger
  no cycle gives any.
\<close>

theorem diff_kinds_counterexample:
  "state (watcher Map.empty) (Path nginx_failed) = None \<and>
   logger (fst (cycle False [nginx_failed] [Path nginx] (watcher Map.empty))) =
     Some [''nginx.service active=failed load=loaded sub=failed''] \<and>
   state (watcher [Path nginx \<mapsto> Unit nginx]) (Path nginx_failed) = Some (Unit nginx) \<and>
   nginx \<noteq> nginx_failed \<and>
   logger (fst (cycle False [nginx_failed] [Path nginx] (watcher [Path nginx \<mapsto> Unit nginx]))) =
     Some [''nginx.service active=failed load=loaded sub=failed''] \<and>
   logger (fst (cycle True [nginx] [Path nginx] ((watcher Map.empty)\<lparr>bootstrap := True\<rparr>))) =
     Some [] \<and>
   logger (fst (cycle False [nginx] [Path nginx] ((watcher Map.empty)\<lparr>logger := None\<rparr>))) =
     None"
  by (simp add: cycle_def example_defs isEqual_def logf_def status_msg_def)

text \<open>
  Claim C4: \<open>New\<close> on a path with no file gives an empty snapshot in bootstrap mode (and
  logs that it does so); on a file of length zero it gives an empty snapshot outside
  bootstrap mode. Neither fails.
\<close>

theorem load_missing_or_empty:
  "(files fs path = None \<and> fault fs path SysLstat = None \<longrightarrow>
      New c fs None [WithStateFile path, WithLogger l, WithInterval d] =
        Inr \<lparr>state = Map.empty, statePath = path,
             logger = map_option (\<lambda>out. out @ [bootstrap_msg]) l, interval = d,
             bootstrap = True\<rparr>) \<and>
   (files fs path = Some [] \<and> fault fs path SysLstat = None \<longrightarrow>
      New c fs None [WithStateFile path, WithLogger l, WithInterval d] =
        Inr \<lparr>state = Map.empty, statePath = path, logger = l, interval = d,
             bootstrap = False\<rparr>)"
  using New_missing[of fs path c l d] New_zero_length[of fs path c l d] by blast

theorem load_missing_or_empty_witness:
  "(files (disk Map.empty) DefaultStateFile = None \<and>
    fault (disk Map.empty) DefaultStateFile SysLstat = None) \<and>
   New (fixed_codec Map.empty) (disk Map.empty) None
     [WithStateFile DefaultStateFile, WithLogger (Some []), WithInterval DefaultInterval] =
       Inr \<lparr>state = Map.empty, statePath = DefaultStateFile, logger = Some [bootstrap_msg],
            interval = DefaultInterval, bootstrap = True\<rparr> \<and>
   (files (disk [DefaultStateFile \<mapsto> []]) DefaultStateFile = Some [] \<and>
    fault (disk [DefaultStateFile \<mapsto> []]) DefaultStateFile SysLstat = None) \<and>
   New (fixed_codec Map.empty) (disk [DefaultStateFile \<mapsto> []]) None
     [WithStateFile DefaultStateFile, WithLogger (Some []), WithInterval DefaultInterval] =
       Inr \<lparr>state = Map.empty, statePath = DefaultStateFile, logger = Some [],
            interval = DefaultInterval, bootstrap = False\<rparr>"
proof -
  have h1: "files (disk Map.empty) DefaultStateFile = None \<and>
            fault (disk Map.empty) DefaultStateFile SysLstat = None"
    by (simp add: disk_def)
  have h2: "files (disk [DefaultStateFile \<mapsto> []]) DefaultStateFile = Some [] \<and>
            fault (disk [DefaultStateFile \<mapsto> []]) DefaultStateFile SysLstat = None"
    by (simp add: disk_def)
  show ?thesis
    using h1 h2
      load_missing_or_empty[of "disk Map.empty" DefaultStateFile "fixed_codec Map.empty"
        "Some []" DefaultInterval]
      load_missing_or_empty[of "disk [DefaultStateFile \<mapsto> []]" DefaultStateFile
        "fixed_codec Map.empty" "Some []" DefaultInterval]
    by simp
qed

text \<open>
  Claim C5: when the state file exists, is not empty and can be opened, and either the
  gzip reader or the gob decoder rejects its bytes, \<open>New\<close> fails with that error; no
  watcher is returned, so neither an empty snapshot nor bootstrap mode.
\<close>

theorem load_corrupt:
  assumes "files fs path = Some bs" "bs \<noteq> []"
    "fault fs path SysLstat = None" "fault fs path SysOpenRead = None"
    "NewReader c bs = Inl err \<or> (\<exists>r. NewReader c bs = Inr r \<and> Decode c r = Inl err)"
  shows "New c fs None [WithStateFile path, WithLogger l, WithInterval d] = Inl err"
  using assms by (auto simp: New_options load_def Lstat_def OpenFile_RDONLY_def)

theorem load_corrupt_witness:
  "files (disk [DefaultStateFile \<mapsto> [0x6e, 0x6f, 0x0a]]) DefaultStateFile = Some [0x6e, 0x6f, 0x0a] \<and>
   [0x6e, 0x6f, 0x0a] \<noteq> ([] :: byte list) \<and>
   fault (disk [DefaultStateFile \<mapsto> [0x6e, 0x6f, 0x0a]]) DefaultStateFile SysLstat = None \<and>
   fault (disk [DefaultStateFile \<mapsto> [0x6e, 0x6f, 0x0a]]) DefaultStateFile SysOpenRead = None \<and>
   NewReader (fixed_codec Map.empty) [0x6e, 0x6f, 0x0a] = Inl (ErrDecode ''gzip: invalid header'') \<and>
   New (fixed_codec Map.empty) (disk [DefaultStateFile \<mapsto> [0x6e, 0x6f, 0x0a]]) None
     [WithStateFile DefaultStateFile, WithLogger (Some []), WithInterval DefaultInterval] =
       Inl (ErrDecode ''gzip: invalid header'')"
proof -
  let ?fs = "disk [DefaultStateFile \<mapsto> [0x6e, 0x6f, 0x0a]]"
  have h1: "files ?fs DefaultStateFile = Some [0x6e, 0x6f, 0x0a]" by (simp add: disk_def)
  have h2: "[0x6e, 0x6f, 0x0a] \<noteq> ([] :: byte list)" by simp
  have h3: "fault ?fs DefaultStateFile SysLstat = None" by (simp add: disk_def)
  have h4: "fault ?fs DefaultStateFile SysOpenRead = None" by (simp add: disk_def)
  have h5: "NewReader (fixed_codec Map.empty) [0x6e, 0x6f, 0x0a] = Inl (ErrDecode ''gzip: invalid header'')"
    by (simp add: fixed_codec_def)
  have h5': "NewReader (fixed_codec Map.empty) [0x6e, 0x6f, 0x0a] = Inl (ErrDecode ''gzip: invalid header'') \<or>
     (\<exists>r. NewReader (fixed_codec Map.empty) [0x6e, 0x6f, 0x0a] = Inr r \<and>
          Decode (fixed_codec Map.empty) r = Inl (ErrDecode ''gzip: invalid header''))"
    using h5 by blast
  show ?thesis
    using h1 h2 h3 h4 h5 load_corrupt[OF h1 h2 h3 h4 h5', of "Some []" DefaultInterval]
    by simp
qed

text \<open>
  Claim C6 says that \<open>store\<close> leaves in the file the new encoding and nothing else. The
  code opens the file without truncating it: over a file that holds \<open>old\<close>, a store on
  which no call fails leaves the new encoding followed by what \<open>old\<close> had beyond its
  length.
\<close>

theorem store_old_tail:
  "store c \<lparr>files = fl(statePath sd \<mapsto> old), fault = (\<lambda>p call. None), torn = n\<rparr> sd =
     (None, \<lparr>files = fl(statePath sd \<mapsto>
                Encode c (state sd) @ drop (length (Encode c (state sd))) old),
             fault = (\<lambda>p call. None), torn = n\<rparr>)"
  by (simp add: store_def OpenFile_CREATE_WRONLY_def write_file_def overwrite_def)

text \<open>
  Claim C7: storing a snapshot and then constructing a watcher on the same path gives the
  snapshot back, outside bootstrap mode, whatever the file held before. The codec is a
  parameter, so its contract is assumed: the encoding of the snapshot is not empty, and
  reader and decoder give the snapshot back from its encoding whatever bytes follow it.
\<close>

theorem store_load:
  assumes "fault fs (statePath sd) = (\<lambda>call. None)"
    and "\<And>rest. NewReader c (Encode c (state sd) @ rest) = Inr (rd rest)"
    and "\<And>rest. Decode c (rd rest) = Inr (state sd)"
    and "Encode c (state sd) \<noteq> []"
  shows "fst (store c fs sd) = None \<and>
         (\<exists>sd'. New c (snd (store c fs sd)) None [WithStateFile (statePath sd), WithLogger l, WithInterval d]
                  = Inr sd' \<and> state sd' = state sd \<and> \<not> bootstrap sd')"
  using assms
  by (simp add: store_ok New_options load_def Lstat_def OpenFile_RDONLY_def overwrite_def)

theorem store_load_witness:
  "fault (disk [DefaultStateFile \<mapsto> [1, 2, 3, 4, 5]]) (statePath (watcher [Path nginx \<mapsto> Unit nginx]))
     = (\<lambda>call. None) \<and>
   (\<forall>rest. NewReader (fixed_codec [Path nginx \<mapsto> Unit nginx])
             (Encode (fixed_codec [Path nginx \<mapsto> Unit nginx])
                (state (watcher [Path nginx \<mapsto> Unit nginx])) @ rest) = Inr rest) \<and>
   (\<forall>rest. Decode (fixed_codec [Path nginx \<mapsto> Unit nginx]) rest =
             Inr (state (watcher [Path nginx \<mapsto> Unit nginx]))) \<and>
   Encode (fixed_codec [Path nginx \<mapsto> Unit nginx]) (state (watcher [Path nginx \<mapsto> Unit nginx])) \<noteq> [] \<and>
   files (snd (store (fixed_codec [Path nginx \<mapsto> Unit nginx])
                (disk [DefaultStateFile \<mapsto> [1, 2, 3, 4, 5]])
                (watcher [Path nginx \<mapsto> Unit nginx]))) DefaultStateFile = Some [0x1f, 0x8b, 3, 4, 5] \<and>
   fst (store (fixed_codec [Path nginx \<mapsto> Unit nginx])
          (disk [DefaultStateFile \<mapsto> [1, 2, 3, 4, 5]])
          (watcher [Path nginx \<mapsto> Unit nginx])) = None \<and>
   (\<exists>sd'. New (fixed_codec [Path nginx \<mapsto> Unit nginx])
            (snd (store (fixed_codec [Path nginx \<mapsto> Unit nginx])
                    (disk [DefaultStateFile \<mapsto> [1, 2, 3, 4, 5]])
                    (watcher [Path nginx \<mapsto> Unit nginx]))) None
            [WithStateFile (statePath (watcher [Path nginx \<mapsto> Unit nginx])), WithLogger (Some []),
             WithInterval DefaultInterval] = Inr sd' \<and>
          state sd' = state (watcher [Path nginx \<mapsto> Unit nginx]) \<and> \<not> bootstrap sd')"
proof -
  let ?c = "fixed_codec [Path nginx \<mapsto> Unit nginx]"
  let ?sd = "watcher [Path nginx \<mapsto> Unit nginx]"
  let ?fs = "disk [DefaultStateFile \<mapsto> [1, 2, 3, 4, 5]]"
  have h1: "fault ?fs (statePath ?sd) = (\<lambda>call. None)" by (simp add: disk_def)
  have h2: "\<And>rest. NewReader ?c (Encode ?c (state ?sd) @ rest) = Inr ((\<lambda>r. r) rest)"
    by (simp add: fixed_codec_def)
  have h3: "\<And>rest. Decode ?c ((\<lambda>r. r) rest) = Inr (state ?sd)"
    by (simp add: fixed_codec_def watcher_def)
  have h4: "Encode ?c (state ?sd) \<noteq> []" by (simp add: fixed_codec_def)
  have disk: "files (snd (store ?c ?fs ?sd)) DefaultStateFile = Some [0x1f, 0x8b, 3, 4, 5]"
    by (simp add: store_def OpenFile_CREATE_WRONLY_def write_file_def overwrite_def
          fixed_codec_def watcher_def disk_def)
  show ?thesis
    using h1 h2 h3 h4 disk store_load[of ?fs ?sd ?c "\<lambda>r. r" "Some []" DefaultInterval, OF h1 h2 h3 h4]
    by simp
qed

text \<open>
  Claim C8: let a call of \<open>Next\<close> have run the polls \<open>qs\<close> and then a poll that lists
  \<open>units\<close>, pairwise distinct in their paths, without returning (the range order \<open>ks1\<close>
  of that cycle visiting the keys of the map). When the next poll lists \<open>units\<close> again,
  its cycle leaves the watcher and its log as they are with \<open>flush\<close> false, and after it
  the call stands where it stood before it: same watcher, same log, same file system.
\<close>

theorem unchanged_listing:
  assumes "Next c qs sd fs = (None, sd0, fs0, r0)"
    and "distinct (map Path units)"
    and "set ks1 = dom (state sd0) \<union> Path ` set units"
    and "Next c (qs @ [\<lparr>listing = Inr units, order = ks1\<rparr>]) sd fs = (None, sd1, fs1, r1)"
  shows "cycle False units ks2 sd1 = (sd1, False) \<and>
         Next c (qs @ [\<lparr>listing = Inr units, order = ks1\<rparr>, \<lparr>listing = Inr units, order = ks2\<rparr>])
           sd fs = (None, sd1, fs1, [])"
proof -
  let ?p1 = "\<lparr>listing = Inr units, order = ks1\<rparr>"
  let ?p2 = "\<lparr>listing = Inr units, order = ks2\<rparr>"
  have one: "Next_loop c (qs = []) [?p1] sd0 fs0 = (None, sd1, fs1, r1)"
    using assms(1,4) by (simp add: Next_def Next_loop_append)
  then obtain fl where cyc: "cycle (qs = []) units ks1 sd0 = (sd1, fl)"
    using Next_loop_single by blast
  have "state sd1 = map_of (map (\<lambda>s. (Path s, Unit s)) units)"
    using cycle_state[OF assms(2,3), of "qs = []"] cyc by simp
  then have same: "cycle False units ks2 sd1 = (sd1, False)" by (rule cycle_same[OF assms(2)])
  have "Next_loop c True ((qs @ [?p1]) @ [?p2]) sd fs =
        Next_loop c (True \<and> qs @ [?p1] = []) [?p2] sd1 fs1"
    using assms(4) unfolding Next_def by (rule Next_loop_append)
  then have "Next c (qs @ [?p1, ?p2]) sd fs = (None, sd1, fs1, [])"
    using same by (simp add: Next_def)
  then show ?thesis using same by simp
qed

theorem unchanged_listing_witness:
  "Next (fixed_codec Map.empty) [] (watcher Map.empty) (disk Map.empty) =
     (None, watcher Map.empty, disk Map.empty, []) \<and>
   distinct (map Path [nginx, cron]) \<and>
   set [Path nginx, Path cron] = dom (state (watcher Map.empty)) \<union> Path ` set [nginx, cron] \<and>
   Next (fixed_codec Map.empty) ([] @ [\<lparr>listing = Inr [nginx, cron], order = [Path nginx, Path cron]\<rparr>])
       (watcher Map.empty) (disk Map.empty) =
     (None,
      (watcher [Path nginx \<mapsto> Unit nginx, Path cron \<mapsto> Unit cron])
        \<lparr>logger := Some [''nginx.service active=active load=loaded sub=running'',
                          ''cron.service active=active load=loaded sub=running'']\<rparr>,
      disk [DefaultStateFile \<mapsto> [0x1f, 0x8b]], []) \<and>
   cycle False [nginx, cron] [Path cron, Path nginx]
      ((watcher [Path nginx \<mapsto> Unit nginx, Path cron \<mapsto> Unit cron])
        \<lparr>logger := Some [''nginx.service active=active load=loaded sub=running'',
                          ''cron.service active=active load=loaded sub=running'']\<rparr>) =
     ((watcher [Path nginx \<mapsto> Unit nginx, Path cron \<mapsto> Unit cron])
        \<lparr>logger := Some [''nginx.service active=active load=loaded sub=running'',
                          ''cron.service active=active load=loaded sub=running'']\<rparr>, False) \<and>
   Next (fixed_codec Map.empty)
       ([] @ [\<lparr>listing = Inr [nginx, cron], order = [Path nginx, Path cron]\<rparr>,
              \<lparr>listing = Inr [nginx, cron], order = [Path cron, Path nginx]\<rparr>])
       (watcher Map.empty) (disk Map.empty) =
     (None,
      (watcher [Path nginx \<mapsto> Unit nginx, Path cron \<mapsto> Unit cron])
        \<lparr>logger := Some [''nginx.service active=active load=loaded sub=running'',
                          ''cron.service active=active load=loaded sub=running'']\<rparr>,
      disk [DefaultStateFile \<mapsto> [0x1f, 0x8b]], [])"
proof -
  let ?c = "fixed_codec Map.empty"
  let ?sd1 = "(watcher [Path nginx \<mapsto> Unit nginx, Path cron \<mapsto> Unit cron])
        \<lparr>logger := Some [''nginx.service active=active load=loaded sub=running'',
                          ''cron.service active=active load=loaded sub=running'']\<rparr>"
  have h1: "Next ?c [] (watcher Map.empty) (disk Map.empty) =
     (None, watcher Map.empty, disk Map.empty, [])" by (simp add: Next_def)
  have h2: "distinct (map Path [nginx, cron])" by (simp add: example_defs)
  have h3: "set [Path nginx, Path cron] = dom (state (watcher Map.empty)) \<union> Path ` set [nginx, cron]"
    by (auto simp: example_defs)
  have h4: "Next ?c ([] @ [\<lparr>listing = Inr [nginx, cron], order = [Path nginx, Path cron]\<rparr>])
       (watcher Map.empty) (disk Map.empty) =
     (None, ?sd1, disk [DefaultStateFile \<mapsto> [0x1f, 0x8b]], [])"
    by (simp add: Next_def cycle_def example_defs isEqual_def logf_def status_msg_def store_def
          OpenFile_CREATE_WRONLY_def write_file_def overwrite_def)
  show ?thesis
    using h1 h2 h3 h4 unchanged_listing[OF h1 h2 h3 h4, of "[Path cron, Path nginx]"]
    by blast
qed

text \<open>
  What \<open>Next\<close> does with an error it sees, after any run of cycles: when \<open>ListUnits\<close>
  fails it returns that error at once, the watcher, its log and the file system being as
  the last cycle left them and the rest of the script unconsumed; when a cycle has
  changed the snapshot and \<open>store\<close> returns an error, it returns that error too.
\<close>

lemma Next_error:
  "(Next c qs sd fs = (None, sd1, fs1, rest) \<and> listing p = Inl err \<longrightarrow>
      Next c (qs @ p # ps) sd fs = (Some ([], err), sd1, fs1, ps)) \<and>
   (Next c qs sd fs = (None, sd1, fs1, rest) \<and> listing p = Inr units \<and>
    cycle (qs = []) units (order p) sd1 = (sd2, True) \<and> store c fs1 sd2 = (Some err, fs2) \<longrightarrow>
      Next c (qs @ p # ps) sd fs = (Some ([], err), sd2, fs2, ps))"
  by (auto simp: Next_def Next_loop_append)

lemma Next_error_example:
  "(Next (fixed_codec Map.empty) [\<lparr>listing = Inr [nginx], order = [Path nginx]\<rparr>]
      (watcher [Path nginx \<mapsto> Unit nginx]) (disk Map.empty) =
      (None, watcher [Path nginx \<mapsto> Unit nginx], disk Map.empty, []) \<and>
    listing \<lparr>listing = Inl (ErrConn ''connection closed''), order = []\<rparr> =
      Inl (ErrConn ''connection closed'')) \<and>
   Next (fixed_codec Map.empty)
     ([\<lparr>listing = Inr [nginx], order = [Path nginx]\<rparr>] @
      \<lparr>listing = Inl (ErrConn ''connection closed''), order = []\<rparr> #
      [\<lparr>listing = Inr [], order = [Path nginx]\<rparr>])
     (watcher [Path nginx \<mapsto> Unit nginx]) (disk Map.empty) =
     (Some ([], ErrConn ''connection closed''), watcher [Path nginx \<mapsto> Unit nginx], disk Map.empty,
      [\<lparr>listing = Inr [], order = [Path nginx]\<rparr>]) \<and>
   (Next (fixed_codec Map.empty) [] (watcher Map.empty) (readonly_disk Map.empty) =
      (None, watcher Map.empty, readonly_disk Map.empty, []) \<and>
    listing \<lparr>listing = Inr [nginx], order = [Path nginx]\<rparr> = Inr [nginx] \<and>
    cycle True [nginx] (order \<lparr>listing = Inr [nginx], order = [Path nginx]\<rparr>)
        (watcher Map.empty) =
      ((watcher [Path nginx \<mapsto> Unit nginx])
         \<lparr>logger := Some [''nginx.service active=active load=loaded sub=running'']\<rparr>, True) \<and>
    store (fixed_codec Map.empty) (readonly_disk Map.empty)
      ((watcher [Path nginx \<mapsto> Unit nginx])
         \<lparr>logger := Some [''nginx.service active=active load=loaded sub=running'']\<rparr>) =
      (Some (ErrIO ''permission denied''), readonly_disk Map.empty)) \<and>
   Next (fixed_codec Map.empty)
     ([] @ \<lparr>listing = Inr [nginx], order = [Path nginx]\<rparr> # [\<lparr>listing = Inr [nginx], order = []\<rparr>])
     (watcher Map.empty) (readonly_disk Map.empty) =
     (Some ([], ErrIO ''permission denied''),
      (watcher [Path nginx \<mapsto> Unit nginx])
        \<lparr>logger := Some [''nginx.service active=active load=loaded sub=running'']\<rparr>,
      readonly_disk Map.empty, [\<lparr>listing = Inr [nginx], order = []\<rparr>])"
proof -
  let ?c = "fixed_codec Map.empty"
  let ?ok = "\<lparr>listing = Inr [nginx], order = [Path nginx]\<rparr>"
  let ?bad = "\<lparr>listing = Inl (ErrConn ''connection closed''), order = []\<rparr>"
  let ?sd2 = "(watcher [Path nginx \<mapsto> Unit nginx])
        \<lparr>logger := Some [''nginx.service active=active load=loaded sub=running'']\<rparr>"
  have h1: "Next ?c [?ok] (watcher [Path nginx \<mapsto> Unit nginx]) (disk Map.empty) =
      (None, watcher [Path nginx \<mapsto> Unit nginx], disk Map.empty, []) \<and>
    listing ?bad = Inl (ErrConn ''connection closed'')"
    by (simp add: Next_def cycle_def watcher_def isEqual_def)
  have h2: "Next ?c [] (watcher Map.empty) (readonly_disk Map.empty) =
      (None, watcher Map.empty, readonly_disk Map.empty, []) \<and>
    listing ?ok = Inr [nginx] \<and>
    cycle True [nginx] (order ?ok) (watcher Map.empty) = (?sd2, True) \<and>
    store ?c (readonly_disk Map.empty) ?sd2 =
      (Some (ErrIO ''permission denied''), readonly_disk Map.empty)"
    by (simp add: Next_def cycle_def example_defs isEqual_def logf_def status_msg_def store_def
          OpenFile_CREATE_WRONLY_def)
  have a: "Next ?c ([?ok] @ ?bad # [\<lparr>listing = Inr [], order = [Path nginx]\<rparr>])
       (watcher [Path nginx \<mapsto> Unit nginx]) (disk Map.empty) =
     (Some ([], ErrConn ''connection closed''), watcher [Path nginx \<mapsto> Unit nginx],
      disk Map.empty, [\<lparr>listing = Inr [], order = [Path nginx]\<rparr>])"
    using h1
      Next_error[of ?c "[?ok]" "watcher [Path nginx \<mapsto> Unit nginx]" "disk Map.empty"
        "watcher [Path nginx \<mapsto> Unit nginx]" "disk Map.empty" "[]" ?bad
        "ErrConn ''connection closed''" "[\<lparr>listing = Inr [], order = [Path nginx]\<rparr>]",
        THEN conjunct1]
    by blast
  have b: "Next ?c ([] @ ?ok # [\<lparr>listing = Inr [nginx], order = []\<rparr>])
       (watcher Map.empty) (readonly_disk Map.empty) =
     (Some ([], ErrIO ''permission denied''), ?sd2, readonly_disk Map.empty,
      [\<lparr>listing = Inr [nginx], order = []\<rparr>])"
    using h2
      Next_error[of ?c "[]" "watcher Map.empty" "readonly_disk Map.empty"
        "watcher Map.empty" "readonly_disk Map.empty" "[]" ?ok
        "ErrIO ''permission denied''" "[\<lparr>listing = Inr [nginx], order = []\<rparr>]"
        "[nginx]" ?sd2 "readonly_disk Map.empty", THEN conjunct2]
    by simp
  show ?thesis using h1 h2 a b by blast
qed

text \<open>
  Claim C9 says that a failed \<open>ListUnits\<close> and a failed persistence both end the call with
  the error. The first holds. The second does not hold of every failure: \<open>store\<close> drops
  the results of its two deferred \<^verbatim>\<open>Close\<close> calls, and the gzip writer writes its data when
  it is closed. When that write fails, \<open>store\<close> returns no error and leaves a torn file;
  \<open>Next\<close>, after a cycle that found a new unit, has not returned and polls on.
\<close>

theorem Next_close_failure:
  "store c \<lparr>files = fl, fault = (\<lambda>p call. if call = SysClose then Some err else None), torn = n\<rparr> sd =
     (None,
      \<lparr>files = fl(statePath sd \<mapsto>
          overwrite (take n (Encode c (state sd)))
            (case fl (statePath sd) of None \<Rightarrow> [] | Some old \<Rightarrow> old)),
       fault = (\<lambda>p call. if call = SysClose then Some err else None), torn = n\<rparr>) \<and>
   Next (fixed_codec Map.empty) [\<lparr>listing = Inr [nginx], order = [Path nginx]\<rparr>]
        (watcher Map.empty) (full_disk Map.empty) =
     (None,
      (watcher [Path nginx \<mapsto> Unit nginx])
        \<lparr>logger := Some [''nginx.service active=active load=loaded sub=running'']\<rparr>,
      full_disk [DefaultStateFile \<mapsto> [0x1f]], [])"
proof
  show "store c \<lparr>files = fl, fault = (\<lambda>p call. if call = SysClose then Some err else None), torn = n\<rparr> sd =
     (None,
      \<lparr>files = fl(statePath sd \<mapsto>
          overwrite (take n (Encode c (state sd)))
            (case fl (statePath sd) of None \<Rightarrow> [] | Some old \<Rightarrow> old)),
       fault = (\<lambda>p call. if call = SysClose then Some err else None), torn = n\<rparr>)"
    by (cases "fl (statePath sd)")
       (simp_all add: store_def OpenFile_CREATE_WRONLY_def write_file_def)
  show "Next (fixed_codec Map.empty) [\<lparr>listing = Inr [nginx], order = [Path nginx]\<rparr>]
        (watcher Map.empty) (full_disk Map.empty) =
     (None,
      (watcher [Path nginx \<mapsto> Unit nginx])
        \<lparr>logger := Some [''nginx.service active=active load=loaded sub=running'']\<rparr>,
      full_disk [DefaultStateFile \<mapsto> [0x1f]], [])"
    by (simp add: Next_def cycle_def watcher_def full_disk_def fixed_codec_def nginx_def
          isEqual_def logf_def status_msg_def store_def OpenFile_CREATE_WRONLY_def
          write_file_def overwrite_def DefaultStateFile_def)
qed

text \<open>
  Claim C10: when \<open>ListUnits\<close> fails in a cycle, whatever cycles the call has run before,
  \<open>Next\<close> returns with the watcher, its snapshot included, and the file system exactly as
  they were when that cycle began.
\<close>

theorem failed_listing:
  "Next c qs sd fs = (None, sd1, fs1, rest) \<Longrightarrow> listing p = Inl err \<Longrightarrow>
     snd (Next c (qs @ p # ps) sd fs) = (sd1, fs1, ps)"
  by (simp add: Next_def Next_loop_append)

theorem failed_listing_witness:
  "Next (fixed_codec Map.empty) [\<lparr>listing = Inr [cron], order = [Path cron]\<rparr>]
      (watcher [Path cron \<mapsto> Unit cron]) (disk [DefaultStateFile \<mapsto> [0x1f, 0x8b]]) =
      (None, watcher [Path cron \<mapsto> Unit cron], disk [DefaultStateFile \<mapsto> [0x1f, 0x8b]], []) \<and>
   listing \<lparr>listing = Inl (ErrConn ''connection closed''), order = []\<rparr> =
     Inl (ErrConn ''connection closed'') \<and>
   snd (Next (fixed_codec Map.empty)
     ([\<lparr>listing = Inr [cron], order = [Path cron]\<rparr>] @
      \<lparr>listing = Inl (ErrConn ''connection closed''), order = []\<rparr> # [])
     (watcher [Path cron \<mapsto> Unit cron]) (disk [DefaultStateFile \<mapsto> [0x1f, 0x8b]])) =
   (watcher [Path cron \<mapsto> Unit cron], disk [DefaultStateFile \<mapsto> [0x1f, 0x8b]], [])"
proof -
  have h1: "Next (fixed_codec Map.empty) [\<lparr>listing = Inr [cron], order = [Path cron]\<rparr>]
      (watcher [Path cron \<mapsto> Unit cron]) (disk [DefaultStateFile \<mapsto> [0x1f, 0x8b]]) =
      (None, watcher [Path cron \<mapsto> Unit cron], disk [DefaultStateFile \<mapsto> [0x1f, 0x8b]], [])"
    by (simp add: Next_def cycle_def watcher_def isEqual_def)
  have h2: "listing \<lparr>listing = Inl (ErrConn ''connection closed''), order = []\<rparr> =
     Inl (ErrConn ''connection closed'')" by simp
  show ?thesis
    using h1 h2 failed_listing[OF h1 h2, of "[]"]
    by blast
qed

end
